theory Spec2Isabelle
  imports Complex_Main "HOL-Library.Product_Lexorder" "HOL-Library.Multiset"
begin

section \<open>Python values used by the reducer\<close>

text \<open>
  The block-graph reducer lives in \<^verbatim>\<open>tools/textract_tool.py\<close>. Its input is a list of
  dictionaries (the \<^verbatim>\<open>Blocks\<close> of a document-analysis response). A key the code reads
  with \<^verbatim>\<open>.get\<close> or guards with \<^verbatim>\<open>in\<close> is an optional field here; a key it subscripts
  without a guard (\<^verbatim>\<open>Id\<close>, \<^verbatim>\<open>BlockType\<close>, \<^verbatim>\<open>Type\<close>, \<^verbatim>\<open>Ids\<close>) is a field every block has.
  Strings are lists of characters with codes below 256; the whitespace of \<^verbatim>\<open>str.strip\<close>
  is what Python's \<^verbatim>\<open>str.isspace\<close> accepts among them. Geometry coordinates are rationals: the code only compares
  them, and floats other than NaN compare as the numbers they denote.
\<close>

definition NL :: string where
  "NL = [CHR 0x0A]"

text \<open>\<^verbatim>\<open>sep.join(parts)\<close>\<close>

fun join :: "string \<Rightarrow> string list \<Rightarrow> string" where
  "join sep [] = []"
| "join sep [x] = x"
| "join sep (x # y # ys) = x @ sep @ join sep (y # ys)"

text \<open>The characters below 256 that \<^verbatim>\<open>str.isspace\<close> accepts: tab to carriage return,
  the four separators, the space, next line (U+0085) and no-break space (U+00A0).\<close>

definition isspace :: "char \<Rightarrow> bool" where
  "isspace c = (c \<in> set [CHR 0x09, CHR 0x0A, CHR 0x0B, CHR 0x0C, CHR 0x0D,
                           CHR 0x1C, CHR 0x1D, CHR 0x1E, CHR 0x1F, CHR 0x20,
                           CHR 0x85, CHR 0xA0])"

text \<open>\<^verbatim>\<open>s.strip()\<close>\<close>

definition strip :: "string \<Rightarrow> string" where
  "strip s = rev (dropWhile isspace (rev (dropWhile isspace s)))"

record relationship =
  Type :: string
  Ids :: "string list"

record bounding_box =
  Top :: "rat option"
  Left :: "rat option"

record geometry =
  BoundingBox :: "bounding_box option"

record block =
  Id' :: string
  BlockType :: string
  Text :: "string option"
  EntityTypes :: "string list option"
  RowIndex :: "int option"
  ColumnIndex :: "int option"
  Geometry :: "geometry option"
  Relationships :: "relationship list option"

type_synonym blockmap = "string \<rightharpoonup> block"

text \<open>\<^verbatim>\<open>block_map = {block['Id']: block for block in blocks}\<close>: a later block replaces an
  earlier one that has the same id.\<close>

definition block_map :: "block list \<Rightarrow> blockmap" where
  "block_map blocks = foldl (\<lambda>m b. m(Id' b \<mapsto> b)) Map.empty blocks"

section \<open>Text composition: \<^verbatim>\<open>_get_text_from_block\<close>\<close>

text \<open>The inner loop over the ids of one CHILD relationship; \<open>text_parts\<close> is the list the
  code appends to.\<close>

fun word_ids_loop :: "blockmap \<Rightarrow> string list \<Rightarrow> string list \<Rightarrow> string list" where
  "word_ids_loop bm text_parts [] = text_parts"
| "word_ids_loop bm text_parts (child_id # ids) =
     (case bm child_id of
        None \<Rightarrow> word_ids_loop bm text_parts ids
      | Some child_block \<Rightarrow>
          if BlockType child_block = ''WORD''
          then word_ids_loop bm
                 (text_parts @ [case Text child_block of None \<Rightarrow> [] | Some t \<Rightarrow> t]) ids
          else word_ids_loop bm text_parts ids)"

text \<open>The outer loop over the relationships of the block.\<close>

fun child_rels_loop :: "blockmap \<Rightarrow> string list \<Rightarrow> relationship list \<Rightarrow> string list" where
  "child_rels_loop bm text_parts [] = text_parts"
| "child_rels_loop bm text_parts (r # rs) =
     (if Type r = ''CHILD''
      then child_rels_loop bm (word_ids_loop bm text_parts (Ids r)) rs
      else child_rels_loop bm text_parts rs)"

definition get_text_from_block :: "block \<Rightarrow> blockmap \<Rightarrow> string" where
  "get_text_from_block block bm =
     (let text_parts0 = (case Text block of None \<Rightarrow> [] | Some t \<Rightarrow> [t]);
          text_parts = (case Relationships block of
                          None \<Rightarrow> text_parts0
                        | Some rels \<Rightarrow> child_rels_loop bm text_parts0 rels)
      in strip (join '' '' text_parts))"

subsection \<open>The composition rule as the specification words it\<close>

text \<open>The texts of the WORD blocks that the ids of a relationship resolve to, in id order;
  a WORD without text contributes the empty string.\<close>

definition word_texts_of_ids :: "blockmap \<Rightarrow> string list \<Rightarrow> string list" where
  "word_texts_of_ids bm ids =
     map (\<lambda>b. case Text b of None \<Rightarrow> [] | Some t \<Rightarrow> t)
       (filter (\<lambda>b. BlockType b = ''WORD'') (List.map_filter bm ids))"

definition child_word_texts :: "blockmap \<Rightarrow> block \<Rightarrow> string list" where
  "child_word_texts bm block =
     (case Relationships block of
        None \<Rightarrow> []
      | Some rels \<Rightarrow>
          concat (map (\<lambda>r. word_texts_of_ids bm (Ids r)) (filter (\<lambda>r. Type r = ''CHILD'') rels)))"

section \<open>Form fields: \<^verbatim>\<open>_extract_key_value_pairs\<close>\<close>

text \<open>A Python \<^verbatim>\<open>dict\<close> in iteration order: an association list with distinct keys.
  \<^verbatim>\<open>d[k] = v\<close> replaces the value in place when \<open>k\<close> is a key already, and appends the
  entry otherwise.\<close>

type_synonym ('k, 'v) dict = "('k \<times> 'v) list"

fun dict_set :: "('k, 'v) dict \<Rightarrow> 'k \<Rightarrow> 'v \<Rightarrow> ('k, 'v) dict" where
  "dict_set [] k v = [(k, v)]"
| "dict_set ((k', v') # d) k v =
     (if k' = k then (k', v) # d else (k', v') # dict_set d k v)"

text \<open>The loop over the ids of one VALUE relationship. Its \<^verbatim>\<open>break\<close> leaves this loop
  only; \<open>value_text\<close> is the variable the code assigns.\<close>

fun value_ids_loop :: "blockmap \<Rightarrow> string \<Rightarrow> string list \<Rightarrow> string" where
  "value_ids_loop bm value_text [] = value_text"
| "value_ids_loop bm value_text (value_id # ids) =
     (case bm value_id of
        None \<Rightarrow> value_ids_loop bm value_text ids
      | Some value_block \<Rightarrow>
          if EntityTypes value_block = Some [''VALUE'']
          then get_text_from_block value_block bm
          else value_ids_loop bm value_text ids)"

text \<open>The loop over the relationships of a KEY block; it runs to the end of the list.\<close>

fun value_rels_loop :: "blockmap \<Rightarrow> string \<Rightarrow> relationship list \<Rightarrow> string" where
  "value_rels_loop bm value_text [] = value_text"
| "value_rels_loop bm value_text (r # rs) =
     (if Type r = ''VALUE''
      then value_rels_loop bm (value_ids_loop bm value_text (Ids r)) rs
      else value_rels_loop bm value_text rs)"

definition find_value_text :: "blockmap \<Rightarrow> block \<Rightarrow> string" where
  "find_value_text bm kv_block =
     (case Relationships kv_block of
        None \<Rightarrow> []
      | Some rels \<Rightarrow> value_rels_loop bm [] rels)"

text \<open>The body of the loop over \<open>key_value_blocks\<close>.\<close>

definition kv_step :: "blockmap \<Rightarrow> (string, string) dict \<Rightarrow> block \<Rightarrow> (string, string) dict" where
  "kv_step bm key_value_pairs kv_block =
     (if EntityTypes kv_block = Some [''KEY'']
      then (let key_text = get_text_from_block kv_block bm;
                value_text = find_value_text bm kv_block
            in if key_text \<noteq> [] \<and> value_text \<noteq> []
               then dict_set key_value_pairs key_text value_text
               else key_value_pairs)
      else key_value_pairs)"

definition extract_key_value_pairs :: "block list \<Rightarrow> block list \<Rightarrow> (string, string) dict" where
  "extract_key_value_pairs blocks key_value_blocks =
     foldl (kv_step (block_map blocks)) [] key_value_blocks"

section \<open>Tables: \<^verbatim>\<open>_extract_table_content\<close>\<close>

text \<open>The exceptions of the program, each with the text \<^verbatim>\<open>str(e)\<close> gives; a
  \<^verbatim>\<open>ClientError\<close> also has the code of \<^verbatim>\<open>e.response['Error']['Code']\<close>. Every one of
  them is an instance of Python's \<^verbatim>\<open>Exception\<close>.\<close>

datatype exn =
    IndexError string
  | ValueError string
  | NoCredentialsError string
  | ClientError string string
  | OtherException string

fun exn_str :: "exn \<Rightarrow> string" where
  "exn_str (IndexError m) = m"
| "exn_str (ValueError m) = m"
| "exn_str (NoCredentialsError m) = m"
| "exn_str (ClientError code m) = m"
| "exn_str (OtherException m) = m"

type_synonym grid = "string option list list"

fun cell_ids_loop :: "blockmap \<Rightarrow> block list \<Rightarrow> string list \<Rightarrow> block list" where
  "cell_ids_loop bm table_cells [] = table_cells"
| "cell_ids_loop bm table_cells (cell_id # ids) =
     (case bm cell_id of
        None \<Rightarrow> cell_ids_loop bm table_cells ids
      | Some cell_block \<Rightarrow>
          if BlockType cell_block = ''CELL''
          then cell_ids_loop bm (table_cells @ [cell_block]) ids
          else cell_ids_loop bm table_cells ids)"

fun cell_rels_loop :: "blockmap \<Rightarrow> block list \<Rightarrow> relationship list \<Rightarrow> block list" where
  "cell_rels_loop bm table_cells [] = table_cells"
| "cell_rels_loop bm table_cells (r # rs) =
     (if Type r = ''CHILD''
      then cell_rels_loop bm (cell_ids_loop bm table_cells (Ids r)) rs
      else cell_rels_loop bm table_cells rs)"

definition get_table_cells :: "blockmap \<Rightarrow> block \<Rightarrow> block list" where
  "get_table_cells bm table_block =
     (case Relationships table_block of
        None \<Rightarrow> []
      | Some rels \<Rightarrow> cell_rels_loop bm [] rels)"

text \<open>\<^verbatim>\<open>x.get('RowIndex', 0)\<close> and \<^verbatim>\<open>x.get('ColumnIndex', 0)\<close>\<close>

definition row_index :: "block \<Rightarrow> int" where
  "row_index x = (case RowIndex x of None \<Rightarrow> 0 | Some r \<Rightarrow> r)"

definition column_index :: "block \<Rightarrow> int" where
  "column_index x = (case ColumnIndex x of None \<Rightarrow> 0 | Some c \<Rightarrow> c)"

definition cell_key :: "block \<Rightarrow> int \<times> int" where
  "cell_key x = (row_index x, column_index x)"

text \<open>\<^verbatim>\<open>max(...)\<close> of a sequence; Python raises \<^verbatim>\<open>ValueError\<close> on an empty one.\<close>

fun py_max :: "int list \<Rightarrow> exn + int" where
  "py_max [] = Inl (ValueError ''max() arg is an empty sequence'')"
| "py_max (x # xs) = Inr (foldl max x xs)"

text \<open>An index into a list of length \<open>n\<close>: Python counts a negative index from the end and
  raises \<^verbatim>\<open>IndexError\<close> outside \<open>-n..n-1\<close>.\<close>

definition py_index :: "nat \<Rightarrow> int \<Rightarrow> nat option" where
  "py_index n i =
     (if 0 \<le> i \<and> i < int n then Some (nat i)
      else if - int n \<le> i \<and> i < 0 then Some (nat (int n + i))
      else None)"

text \<open>\<^verbatim>\<open>table_grid[row][col] = cell_text\<close>\<close>

definition grid_set :: "grid \<Rightarrow> int \<Rightarrow> int \<Rightarrow> string \<Rightarrow> exn + grid" where
  "grid_set table_grid row col cell_text =
     (case py_index (length table_grid) row of
        None \<Rightarrow> Inl (IndexError ''list index out of range'')
      | Some i \<Rightarrow>
          (case py_index (length (table_grid ! i)) col of
             None \<Rightarrow> Inl (IndexError ''list assignment index out of range'')
           | Some j \<Rightarrow> Inr (table_grid[i := (table_grid ! i)[j := Some cell_text]])))"

fun fill_grid :: "blockmap \<Rightarrow> grid \<Rightarrow> block list \<Rightarrow> exn + grid" where
  "fill_grid bm table_grid [] = Inr table_grid"
| "fill_grid bm table_grid (cell # cells) =
     (case grid_set table_grid (row_index cell - 1) (column_index cell - 1)
             (get_text_from_block cell bm) of
        Inl e \<Rightarrow> Inl e
      | Inr table_grid' \<Rightarrow> fill_grid bm table_grid' cells)"

text \<open>The sort, the two maxima, the allocation of \<open>max_row + 1\<close> rows of
  \<open>max_col + 1\<close> cells (\<^verbatim>\<open>range\<close> of a number below 1 is empty), and the fill.\<close>

definition build_grid :: "blockmap \<Rightarrow> block list \<Rightarrow> exn + grid" where
  "build_grid bm table_cells =
     (let sorted_cells = sort_key cell_key table_cells
      in case py_max (map row_index sorted_cells) of
           Inl e \<Rightarrow> Inl e
         | Inr max_row \<Rightarrow>
             (case py_max (map column_index sorted_cells) of
                Inl e \<Rightarrow> Inl e
              | Inr max_col \<Rightarrow>
                  fill_grid bm
                    (replicate (nat (max_row + 1)) (replicate (nat (max_col + 1)) None))
                    sorted_cells))"

text \<open>\<^verbatim>\<open>[cell or "" for cell in row]\<close> and the line of one row.\<close>

definition cell_or_empty :: "string option \<Rightarrow> string" where
  "cell_or_empty cell = (case cell of None \<Rightarrow> [] | Some t \<Rightarrow> t)"

definition row_line :: "string list \<Rightarrow> string" where
  "row_line row = ''| '' @ join '' | '' row @ '' |''"

text \<open>The loop over \<^verbatim>\<open>enumerate(table_grid)\<close>; \<open>i\<close> is the index of the first row left.\<close>

fun render_rows :: "nat \<Rightarrow> string list \<Rightarrow> grid \<Rightarrow> string list" where
  "render_rows i markdown_table [] = markdown_table"
| "render_rows i markdown_table (row # rows) =
     (let row' = map cell_or_empty row;
          markdown_table' = markdown_table @ [row_line row']
      in if i = 0
         then render_rows (Suc i)
                (markdown_table' @ [row_line (replicate (length row') ''---'')]) rows
         else render_rows (Suc i) markdown_table' rows)"

definition render_grid :: "grid \<Rightarrow> string" where
  "render_grid table_grid =
     (if table_grid = [] \<or> hd table_grid = [] then []
      else join NL (render_rows 0 [] table_grid))"

definition extract_table_content :: "block list \<Rightarrow> block \<Rightarrow> block list \<Rightarrow> exn + string" where
  "extract_table_content blocks table_block cell_blocks =
     (let bm = block_map blocks;
          table_cells = get_table_cells bm table_block
      in if table_cells = [] then Inr []
         else (case build_grid bm table_cells of
                 Inl e \<Rightarrow> Inl e
               | Inr table_grid \<Rightarrow> Inr (render_grid table_grid)))"

section \<open>Free text: \<^verbatim>\<open>_extract_text_content\<close>\<close>

text \<open>The sort key: \<^verbatim>\<open>Geometry.BoundingBox.Top\<close> and \<^verbatim>\<open>Left\<close>, each 0 when any dictionary
  on the way is missing.\<close>

definition bbox_of :: "block \<Rightarrow> bounding_box option" where
  "bbox_of x = (case Geometry x of None \<Rightarrow> None | Some g \<Rightarrow> BoundingBox g)"

definition top_of :: "block \<Rightarrow> rat" where
  "top_of x = (case bbox_of x of None \<Rightarrow> 0
               | Some bb \<Rightarrow> (case Top bb of None \<Rightarrow> 0 | Some t \<Rightarrow> t))"

definition left_of :: "block \<Rightarrow> rat" where
  "left_of x = (case bbox_of x of None \<Rightarrow> 0
                | Some bb \<Rightarrow> (case Left bb of None \<Rightarrow> 0 | Some l \<Rightarrow> l))"

definition text_key :: "block \<Rightarrow> rat \<times> rat" where
  "text_key x = (top_of x, left_of x)"

fun text_lines_loop :: "string list \<Rightarrow> block list \<Rightarrow> string list" where
  "text_lines_loop text_lines [] = text_lines"
| "text_lines_loop text_lines (block # blocks) =
     (let text = strip (case Text block of None \<Rightarrow> [] | Some t \<Rightarrow> t)
      in if text \<noteq> [] then text_lines_loop (text_lines @ [text]) blocks
         else text_lines_loop text_lines blocks)"

definition extract_text_content :: "block list \<Rightarrow> block list \<Rightarrow> string" where
  "extract_text_content blocks text_blocks =
     join NL (text_lines_loop [] (sort_key text_key text_blocks))"

section \<open>The report of one document: \<^verbatim>\<open>_process_textract_response\<close>\<close>

record response =
  Blocks :: "block list option"

definition kv_header :: string where
  "kv_header = ''### Key-Value Pairs (Forms)''"

definition tables_header :: string where
  "tables_header = ''### Tables''"

definition text_header :: string where
  "text_header = ''### Text Content''"

definition kv_line :: "string \<times> string \<Rightarrow> string" where
  "kv_line kv = ''**'' @ fst kv @ '':** '' @ snd kv"

text \<open>The loop over \<open>table_blocks\<close>; \<open>result\<close> is the list of lines the code appends to.
  An exception of the table reconstructor leaves the loop.\<close>

fun tables_loop :: "block list \<Rightarrow> block list \<Rightarrow> string list \<Rightarrow> block list \<Rightarrow> exn + string list" where
  "tables_loop blocks cell_blocks result [] = Inr result"
| "tables_loop blocks cell_blocks result (table_block # tbs) =
     (case extract_table_content blocks table_block cell_blocks of
        Inl e \<Rightarrow> Inl e
      | Inr table_content \<Rightarrow>
          if table_content \<noteq> []
          then tables_loop blocks cell_blocks (result @ [table_content, []]) tbs
          else tables_loop blocks cell_blocks result tbs)"

text \<open>The list \<open>result\<close> as it stands before the final \<^verbatim>\<open>'\n'.join(result)\<close>.\<close>

definition report_lines :: "block list \<Rightarrow> string \<Rightarrow> exn + string list" where
  "report_lines blocks doc_type =
     (let text_blocks = filter (\<lambda>b. BlockType b = ''LINE'') blocks;
          table_blocks = filter (\<lambda>b. BlockType b = ''TABLE'') blocks;
          cell_blocks = filter (\<lambda>b. BlockType b = ''CELL'') blocks;
          key_value_blocks = filter (\<lambda>b. BlockType b = ''KEY_VALUE_SET'') blocks;
          result0 = [''## '' @ doc_type @ '' Document Analysis'' @ NL];
          result1 =
            (if key_value_blocks \<noteq> []
             then result0 @ [kv_header, []]
                    @ map kv_line (extract_key_value_pairs blocks key_value_blocks) @ [[]]
             else result0)
      in case (if table_blocks \<noteq> []
               then tables_loop blocks cell_blocks (result1 @ [tables_header, []]) table_blocks
               else Inr result1) of
           Inl e \<Rightarrow> Inl e
         | Inr result2 \<Rightarrow>
             Inr (if text_blocks \<noteq> []
                  then result2 @ [text_header, [], extract_text_content blocks text_blocks]
                  else result2))"

definition process_textract_response :: "response \<Rightarrow> string \<Rightarrow> exn + string" where
  "process_textract_response resp doc_type =
     (case report_lines (case Blocks resp of None \<Rightarrow> [] | Some bs \<Rightarrow> bs) doc_type of
        Inl e \<Rightarrow> Inl e
      | Inr result \<Rightarrow> Inr (join NL result))"

section \<open>The tool's entry point: \<^verbatim>\<open>_run\<close>\<close>

text \<open>
  The file system, the cloud clients and the random key generator are outside the
  program. What each of their calls does in one run is an input of the model: whether
  the path exists, the hexadecimal text of each \<^verbatim>\<open>uuid4\<close>, and for every call of a client
  either nothing (it returns) or the exception it raises; the two analysis calls return a
  response. The calls are listed in the order the code makes them.
\<close>

record run_env =
  invoice_exists :: bool
  po_exists :: bool
  textract_client :: "exn option"
  s3_client :: "exn option"
  bucket_uuid_hex :: string
  create_bucket :: "exn option"
  invoice_uuid_hex :: string
  po_uuid_hex :: string
  upload_invoice :: "exn option"
  upload_po :: "exn option"
  analyze_invoice :: "exn + response"
  analyze_po :: "exn + response"
  delete_invoice :: "exn option"
  delete_po :: "exn option"
  delete_bucket :: "exn option"

definition final_report :: "string \<Rightarrow> string \<Rightarrow> string" where
  "final_report invoice_analysis po_analysis =
     ''# INVOICE DOCUMENT ANALYSIS'' @ NL @ invoice_analysis @ NL @ NL @ ''---'' @ NL @ NL
       @ ''# PURCHASE ORDER DOCUMENT ANALYSIS'' @ NL @ po_analysis"

text \<open>The clean-up block: a \<^verbatim>\<open>ClientError\<close> ends it silently, any other exception leaves
  it. The result is the exception that leaves the block, if any.\<close>

definition cleanup :: "run_env \<Rightarrow> string \<Rightarrow> exn option" where
  "cleanup env s3_bucket =
     (case delete_invoice env of
        Some (ClientError code m) \<Rightarrow> None
      | Some e \<Rightarrow> Some e
      | None \<Rightarrow>
          (case delete_po env of
             Some (ClientError code m) \<Rightarrow> None
           | Some e \<Rightarrow> Some e
           | None \<Rightarrow>
               if take 14 s3_bucket = ''textract-temp-''
               then (case delete_bucket env of
                       Some (ClientError code m) \<Rightarrow> None
                     | Some e \<Rightarrow> Some e
                     | None \<Rightarrow> None)
               else None))"

text \<open>From the two responses to the returned text: the two reports, the clean-up, the
  final string.\<close>

definition process_and_report :: "run_env \<Rightarrow> string \<Rightarrow> response \<Rightarrow> response \<Rightarrow> exn + string" where
  "process_and_report env s3_bucket invoice_response po_response =
     (case process_textract_response invoice_response ''INVOICE'' of
        Inl e \<Rightarrow> Inl e
      | Inr invoice_analysis \<Rightarrow>
          (case process_textract_response po_response ''PURCHASE ORDER'' of
             Inl e \<Rightarrow> Inl e
           | Inr po_analysis \<Rightarrow>
               (case cleanup env s3_bucket of
                  Some e \<Rightarrow> Inl e
                | None \<Rightarrow> Inr (final_report invoice_analysis po_analysis))))"

text \<open>The two analysis calls; \<^verbatim>\<open>except ClientError\<close> returns a message.\<close>

definition analyze_step :: "run_env \<Rightarrow> string \<Rightarrow> exn + string" where
  "analyze_step env s3_bucket =
     (case analyze_invoice env of
        Inl (ClientError code m) \<Rightarrow> Inr (''Error analyzing documents with Textract: '' @ m)
      | Inl e \<Rightarrow> Inl e
      | Inr invoice_response \<Rightarrow>
          (case analyze_po env of
             Inl (ClientError code m) \<Rightarrow> Inr (''Error analyzing documents with Textract: '' @ m)
           | Inl e \<Rightarrow> Inl e
           | Inr po_response \<Rightarrow> process_and_report env s3_bucket invoice_response po_response))"

text \<open>The two uploads.\<close>

definition upload_step :: "run_env \<Rightarrow> string \<Rightarrow> exn + string" where
  "upload_step env s3_bucket =
     (case upload_invoice env of
        Some (ClientError code m) \<Rightarrow> Inr (''Error uploading files to S3: '' @ m)
      | Some e \<Rightarrow> Inl e
      | None \<Rightarrow>
          (case upload_po env of
             Some (ClientError code m) \<Rightarrow> Inr (''Error uploading files to S3: '' @ m)
           | Some e \<Rightarrow> Inl e
           | None \<Rightarrow> analyze_step env s3_bucket))"

text \<open>The bucket: a temporary one is created when no name is given.\<close>

definition bucket_step :: "run_env \<Rightarrow> string \<Rightarrow> exn + string" where
  "bucket_step env s3_bucket =
     (if s3_bucket = []
      then (let s3_bucket' = ''textract-temp-'' @ take 8 (bucket_uuid_hex env)
            in case create_bucket env of
                 Some (ClientError code m) \<Rightarrow>
                   if code \<noteq> ''BucketAlreadyOwnedByYou''
                   then Inr (''Error creating S3 bucket: '' @ m)
                   else upload_step env s3_bucket'
               | Some e \<Rightarrow> Inl e
               | None \<Rightarrow> upload_step env s3_bucket')
      else upload_step env s3_bucket)"

text \<open>The two clients; the inner \<^verbatim>\<open>try\<close> catches every exception.\<close>

definition client_error_text :: "exn \<Rightarrow> string" where
  "client_error_text e =
     (case e of
        NoCredentialsError m \<Rightarrow>
          ''Error: AWS credentials not found. Please configure your AWS credentials.''
      | _ \<Rightarrow> ''Error initializing AWS clients: '' @ exn_str e)"

text \<open>The body of the outer \<^verbatim>\<open>try\<close>: \<open>Inr\<close> is the text a \<^verbatim>\<open>return\<close> gives, \<open>Inl\<close> the
  exception that leaves the body.\<close>

definition run_body :: "run_env \<Rightarrow> string \<Rightarrow> string \<Rightarrow> string \<Rightarrow> string \<Rightarrow> exn + string" where
  "run_body env invoice_file_path po_file_path aws_region s3_bucket =
     (if \<not> invoice_exists env
      then Inr (''Error: Invoice file not found at path: '' @ invoice_file_path)
      else if \<not> po_exists env
      then Inr (''Error: PO file not found at path: '' @ po_file_path)
      else (case textract_client env of
              Some e \<Rightarrow> Inr (client_error_text e)
            | None \<Rightarrow>
                (case s3_client env of
                   Some e \<Rightarrow> Inr (client_error_text e)
                 | None \<Rightarrow> bucket_step env s3_bucket)))"

text \<open>\<^verbatim>\<open>_run\<close>: the outer \<^verbatim>\<open>except Exception\<close> turns the exception into a text.\<close>

definition run :: "run_env \<Rightarrow> string \<Rightarrow> string \<Rightarrow> string \<Rightarrow> string \<Rightarrow> string" where
  "run env invoice_file_path po_file_path aws_region s3_bucket =
     (case run_body env invoice_file_path po_file_path aws_region s3_bucket of
        Inl e \<Rightarrow> ''Error processing documents with Textract: '' @ exn_str e
      | Inr s \<Rightarrow> s)"

section \<open>Auxiliary notions for the statements\<close>

text \<open>A grid of \<open>n\<close> rows that all have \<open>m\<close> cells.\<close>

definition rect :: "nat \<Rightarrow> nat \<Rightarrow> grid \<Rightarrow> bool" where
  "rect n m g = (length g = n \<and> (\<forall>row\<in>set g. length row = m))"

text \<open>The place in a list of length \<open>n\<close> that the code's \<open>index - 1\<close> reaches for an index
  from 0 to \<open>n - 1\<close>: index 0 gives \<open>-1\<close>, the last place.\<close>

definition grid_pos :: "nat \<Rightarrow> int \<Rightarrow> nat" where
  "grid_pos n r = (if r = 0 then n - 1 else nat (r - 1))"

text \<open>An id resolves to a VALUE block: the index has it and its entity types are exactly
  \<^verbatim>\<open>['VALUE']\<close>.\<close>

definition resolves_to_value :: "blockmap \<Rightarrow> string \<Rightarrow> bool" where
  "resolves_to_value bm value_id =
     (case bm value_id of None \<Rightarrow> False | Some vb \<Rightarrow> EntityTypes vb = Some [''VALUE''])"

text \<open>The block of the first id of a relationship that resolves to a VALUE block.\<close>

definition first_value_block :: "blockmap \<Rightarrow> string list \<Rightarrow> block option" where
  "first_value_block bm ids =
     (case filter (resolves_to_value bm) ids of [] \<Rightarrow> None | value_id # _ \<Rightarrow> bm value_id)"

definition value_relationships :: "block \<Rightarrow> relationship list" where
  "value_relationships kv_block =
     (case Relationships kv_block of
        None \<Rightarrow> []
      | Some rels \<Rightarrow> filter (\<lambda>r. Type r = ''VALUE'') rels)"

definition value_target_ids :: "block \<Rightarrow> string list" where
  "value_target_ids kv_block = concat (map Ids (value_relationships kv_block))"

text \<open>For every VALUE relationship of a KEY block that resolves, the block it resolves to,
  in relationship order.\<close>

definition resolved_value_blocks :: "blockmap \<Rightarrow> block \<Rightarrow> block list" where
  "resolved_value_blocks bm kv_block =
     List.map_filter (\<lambda>r. first_value_block bm (Ids r)) (value_relationships kv_block)"

text \<open>The pair a KEY block yields by itself: its name and value when both are not empty.\<close>

definition kv_candidate :: "blockmap \<Rightarrow> block \<Rightarrow> (string \<times> string) option" where
  "kv_candidate bm kv_block =
     (if EntityTypes kv_block = Some [''KEY'']
         \<and> get_text_from_block kv_block bm \<noteq> [] \<and> find_value_text bm kv_block \<noteq> []
      then Some (get_text_from_block kv_block bm, find_value_text bm kv_block)
      else None)"

definition kv_candidates :: "blockmap \<Rightarrow> block list \<Rightarrow> (string \<times> string) list" where
  "kv_candidates bm key_value_blocks = List.map_filter (kv_candidate bm) key_value_blocks"

text \<open>A list without the repetitions of an element after its first occurrence.\<close>

definition first_occurrences :: "'a list \<Rightarrow> 'a list" where
  "first_occurrences xs = rev (remdups (rev xs))"

text \<open>The dictionary that assigning a list of pairs in order gives.\<close>

definition dict_of :: "('k \<times> 'v) list \<Rightarrow> ('k, 'v) dict" where
  "dict_of ps = foldl (\<lambda>d p. dict_set d (fst p) (snd p)) [] ps"

text \<open>\<^verbatim>\<open>block.get('Text', '').strip()\<close>\<close>

definition stripped_text :: "block \<Rightarrow> string" where
  "stripped_text b = strip (case Text b of None \<Rightarrow> [] | Some t \<Rightarrow> t)"

text \<open>A coordinate of the bounding box, read from the fields of the block: 0 when the
  geometry, the box or the field is missing.\<close>

definition box_coordinate :: "(bounding_box \<Rightarrow> rat option) \<Rightarrow> block \<Rightarrow> rat" where
  "box_coordinate field b =
     (case Geometry b of
        None \<Rightarrow> 0
      | Some g \<Rightarrow>
          (case BoundingBox g of
             None \<Rightarrow> 0
           | Some bb \<Rightarrow> (case field bb of None \<Rightarrow> 0 | Some v \<Rightarrow> v)))"

text \<open>Reading order: ascending top, and ascending left among equal tops.\<close>

definition reading_order :: "block \<Rightarrow> block \<Rightarrow> bool" where
  "reading_order a b =
     (box_coordinate Top a < box_coordinate Top b
      \<or> (box_coordinate Top a = box_coordinate Top b
          \<and> box_coordinate Left a \<le> box_coordinate Left b))"

text \<open>The three subsection headers.\<close>

definition headers :: "string set" where
  "headers = {kv_header, tables_header, text_header}"


text \<open>A text without a newline; a block whose text has none; an index, and a grid, all of
  whose texts have none.\<close>

definition plain :: "string \<Rightarrow> bool" where
  "plain s = (CHR 0x0A \<notin> set s)"

definition plain_block :: "block \<Rightarrow> bool" where
  "plain_block b = (case Text b of None \<Rightarrow> True | Some t \<Rightarrow> plain t)"

definition plain_map :: "blockmap \<Rightarrow> bool" where
  "plain_map bm = (\<forall>k b. bm k = Some b \<longrightarrow> plain_block b)"

definition plain_grid :: "grid \<Rightarrow> bool" where
  "plain_grid g = (\<forall>row\<in>set g. \<forall>c\<in>set row. plain (cell_or_empty c))"

text \<open>A line of a rendered table: without a newline, and starting with a bar.\<close>

definition table_line :: "string \<Rightarrow> bool" where
  "table_line l = (plain l \<and> l \<noteq> [] \<and> hd l = CHR ''|'')"

text \<open>\<^verbatim>\<open>report.split('\n')\<close>: the lines of a text.\<close>

fun split_lines :: "string \<Rightarrow> string list" where
  "split_lines [] = [[]]"
| "split_lines (c # cs) =
     (if c = CHR 0x0A then [] # split_lines cs
      else (case split_lines cs of [] \<Rightarrow> [[c]] | l # ls \<Rightarrow> (c # l) # ls))"

text \<open>The subsection headers among the lines of a text.\<close>

definition header_lines :: "string \<Rightarrow> string set" where
  "header_lines e = set (split_lines e) \<inter> headers"

section \<open>Example inputs\<close>

definition empty_block :: "string \<Rightarrow> string \<Rightarrow> block" where
  "empty_block i t = \<lparr>Id' = i, BlockType = t, Text = None, EntityTypes = None,
     RowIndex = None, ColumnIndex = None, Geometry = None, Relationships = None\<rparr>"

definition mk_cell :: "string \<Rightarrow> int \<Rightarrow> int \<Rightarrow> string \<Rightarrow> block" where
  "mk_cell i r c t =
     (empty_block i ''CELL'')\<lparr>Text := Some t, RowIndex := Some r, ColumnIndex := Some c\<rparr>"

definition mk_table :: "string \<Rightarrow> string list \<Rightarrow> block" where
  "mk_table i ids =
     (empty_block i ''TABLE'')\<lparr>Relationships := Some [\<lparr>Type = ''CHILD'', Ids = ids\<rparr>]\<rparr>"

text \<open>The table of the specification's round-trip scenario: four cells in two rows and
  two columns.\<close>

definition round_trip_blocks :: "block list" where
  "round_trip_blocks =
     [mk_table ''t1'' [''c1'', ''c2'', ''c3'', ''c4''],
      mk_cell ''c1'' 1 1 ''Item'', mk_cell ''c2'' 1 2 ''Qty'',
      mk_cell ''c3'' 2 1 ''Widget'', mk_cell ''c4'' 2 2 ''3'']"

text \<open>Two cells at row 1, column 1.\<close>

definition dup_cells :: "block list" where
  "dup_cells = [mk_cell ''c1'' 1 1 ''old'', mk_cell ''c2'' 1 2 ''Qty'',
                mk_cell ''c3'' 1 1 ''new'']"

text \<open>A table whose second cell has no \<^verbatim>\<open>RowIndex\<close>.\<close>

definition stray_cell :: block where
  "stray_cell = (empty_block ''c2'' ''CELL'')\<lparr>Text := Some ''stray'', ColumnIndex := Some 1\<rparr>"

definition no_row_blocks :: "block list" where
  "no_row_blocks =
     [mk_table ''t1'' [''c1'', ''c2''], mk_cell ''c1'' 1 1 ''Item'', stray_cell]"

definition mk_word :: "string \<Rightarrow> string \<Rightarrow> block" where
  "mk_word i t = (empty_block i ''WORD'')\<lparr>Text := Some t\<rparr>"

definition mk_key :: "string \<Rightarrow> relationship list \<Rightarrow> block" where
  "mk_key i rels =
     (empty_block i ''KEY_VALUE_SET'')\<lparr>EntityTypes := Some [''KEY''], Relationships := Some rels\<rparr>"

definition mk_value :: "string \<Rightarrow> string list \<Rightarrow> block" where
  "mk_value i word_ids =
     (empty_block i ''KEY_VALUE_SET'')\<lparr>EntityTypes := Some [''VALUE''],
        Relationships := Some [\<lparr>Type = ''CHILD'', Ids = word_ids\<rparr>]\<rparr>"

definition key_value_blocks_of :: "block list \<Rightarrow> block list" where
  "key_value_blocks_of blocks = filter (\<lambda>b. BlockType b = ''KEY_VALUE_SET'') blocks"

text \<open>Two KEY blocks with the name Total, with the values 100 and 250.\<close>

definition dup_name_blocks :: "block list" where
  "dup_name_blocks =
     [mk_key ''k1'' [\<lparr>Type = ''CHILD'', Ids = [''w1'']\<rparr>, \<lparr>Type = ''VALUE'', Ids = [''v1'']\<rparr>],
      mk_value ''v1'' [''w2''],
      mk_key ''k2'' [\<lparr>Type = ''CHILD'', Ids = [''w1'']\<rparr>, \<lparr>Type = ''VALUE'', Ids = [''v2'']\<rparr>],
      mk_value ''v2'' [''w3''],
      mk_word ''w1'' ''Total'', mk_word ''w2'' ''100'', mk_word ''w3'' ''250'']"

text \<open>A KEY block with two VALUE relationships that both resolve.\<close>

definition two_values_blocks :: "block list" where
  "two_values_blocks =
     [mk_key ''k1'' [\<lparr>Type = ''CHILD'', Ids = [''w1'']\<rparr>, \<lparr>Type = ''VALUE'', Ids = [''v1'']\<rparr>,
                        \<lparr>Type = ''VALUE'', Ids = [''v2'']\<rparr>],
      mk_value ''v1'' [''w2''], mk_value ''v2'' [''w3''],
      mk_word ''w1'' ''Name'', mk_word ''w2'' ''first'', mk_word ''w3'' ''second'']"

text \<open>A KEY block whose VALUE relationship names an id that no block has.\<close>

definition dangling_blocks :: "block list" where
  "dangling_blocks =
     [mk_key ''k1'' [\<lparr>Type = ''CHILD'', Ids = [''w1'']\<rparr>, \<lparr>Type = ''VALUE'', Ids = [''missing'']\<rparr>],
      mk_word ''w1'' ''Total'']"

definition mk_line :: "string \<Rightarrow> string \<Rightarrow> rat \<Rightarrow> rat \<Rightarrow> block" where
  "mk_line i t y x =
     (empty_block i ''LINE'')\<lparr>Text := Some t,
        Geometry := Some \<lparr>BoundingBox = Some \<lparr>Top = Some y, Left = Some x\<rparr>\<rparr>\<rparr>"

text \<open>LINE blocks: two with the top 0.05 and the lefts 0.6 and 0.2, two with the same
  top 0.10 and left 0.2, one at 0.07 whose text is a no-break space and a space, and one
  without geometry.\<close>

definition tie_lines :: "block list" where
  "tie_lines = [mk_line ''l1'' ''lower'' (10 / 100) (2 / 10),
                mk_line ''l2'' ''right '' (5 / 100) (6 / 10),
                mk_line ''l3'' '' left'' (5 / 100) (2 / 10),
                mk_line ''l4'' [CHR 0xA0, CHR 0x20] (7 / 100) (2 / 10),
                mk_line ''l5'' ''again'' (10 / 100) (2 / 10),
                (empty_block ''l6'' ''LINE'')\<lparr>Text := Some ''no box''\<rparr>]"

text \<open>A KEY block without relationships, a TABLE block without cells and a LINE block
  with a blank text.\<close>

definition bare_blocks :: "block list" where
  "bare_blocks = [mk_key ''k1'' [], mk_table ''t1'' [], mk_line ''l1'' ''  '' 0 0]"

text \<open>The end-to-end scenario of the specification: the field Total with the value
  $500.00, no table, the line Thank you.\<close>

definition end_to_end_blocks :: "block list" where
  "end_to_end_blocks =
     [mk_key ''k1'' [\<lparr>Type = ''CHILD'', Ids = [''w1'']\<rparr>, \<lparr>Type = ''VALUE'', Ids = [''v1'']\<rparr>],
      mk_value ''v1'' [''w2''],
      mk_word ''w1'' ''Total'', mk_word ''w2'' ''$500.00'',
      (mk_line ''l1'' ''Thank you'' (9 / 10) (1 / 10))\<lparr>Relationships := Some [\<lparr>Type = ''CHILD'', Ids = [''w3'', ''w4'']\<rparr>]\<rparr>,
      mk_word ''w3'' ''Thank'', mk_word ''w4'' ''you'']"

text \<open>A run in which both files exist and no external call raises; the analysis calls
  return the two given responses.\<close>

definition quiet_env :: "response \<Rightarrow> response \<Rightarrow> run_env" where
  "quiet_env invoice_response po_response =
     \<lparr>invoice_exists = True, po_exists = True, textract_client = None, s3_client = None,
      bucket_uuid_hex = ''0123456789abcdef0123456789abcdef'', create_bucket = None,
      invoice_uuid_hex = ''1123456789abcdef0123456789abcdef'',
      po_uuid_hex = ''2123456789abcdef0123456789abcdef'',
      upload_invoice = None, upload_po = None,
      analyze_invoice = Inr invoice_response, analyze_po = Inr po_response,
      delete_invoice = None, delete_po = None, delete_bucket = None\<rparr>"


text \<open>A block with a padded text of its own, a WORD child without text, an id that no
  block has, a child that is no WORD, a VALUE relationship, and a WORD child that ends
  with a no-break space.\<close>

definition compose_parent :: block where
  "compose_parent =
     (empty_block ''p1'' ''LINE'')\<lparr>Text := Some '' Total '',
        Relationships := Some [\<lparr>Type = ''CHILD'', Ids = [''w1'', ''w2'', ''nope'', ''c9'']\<rparr>,
                               \<lparr>Type = ''VALUE'', Ids = [''w1'']\<rparr>,
                               \<lparr>Type = ''CHILD'', Ids = [''w3'']\<rparr>]\<rparr>"

definition compose_blocks :: "block list" where
  "compose_blocks =
     [compose_parent, mk_word ''w1'' ''Amount'', empty_block ''w2'' ''WORD'',
      mk_word ''w3'' (''Due'' @ [CHR 0xA0]), mk_cell ''c9'' 1 1 ''cell'']"

text \<open>A KEY block with two VALUE relationships: the first resolves to a VALUE block
  without text, the second to one with the text second.\<close>

definition empty_first_blocks :: "block list" where
  "empty_first_blocks =
     [mk_key ''k1'' [\<lparr>Type = ''CHILD'', Ids = [''w1'']\<rparr>, \<lparr>Type = ''VALUE'', Ids = [''v1'']\<rparr>,
                     \<lparr>Type = ''VALUE'', Ids = [''v2'']\<rparr>],
      mk_value ''v1'' [], mk_value ''v2'' [''w3''],
      mk_word ''w1'' ''Name'', mk_word ''w3'' ''second'']"

text \<open>Two cells at row \<open>-2\<close>, column 1, beside cells at rows 2 and 3.\<close>

definition negative_dup_cells :: "block list" where
  "negative_dup_cells = [mk_cell ''c1'' (- 2) 1 ''old'', mk_cell ''c2'' (- 2) 1 ''new'',
                         mk_cell ''c3'' 2 1 ''two'', mk_cell ''c4'' 3 1 ''three'']"

text \<open>A table with two cells that have no \<^verbatim>\<open>RowIndex\<close> and the same column.\<close>

definition lost_cell :: block where
  "lost_cell = (empty_block ''c2'' ''CELL'')\<lparr>Text := Some ''lost'', ColumnIndex := Some 1\<rparr>"

definition kept_cell :: block where
  "kept_cell = (empty_block ''c3'' ''CELL'')\<lparr>Text := Some ''kept'', ColumnIndex := Some 1\<rparr>"

definition two_stray_blocks :: "block list" where
  "two_stray_blocks =
     [mk_table ''t1'' [''c1'', ''c2'', ''c3''], mk_cell ''c1'' 1 1 ''Item'', lost_cell, kept_cell]"

text \<open>A table whose only cell has no \<^verbatim>\<open>RowIndex\<close> and the column index \<open>-5\<close>.\<close>

definition negative_column_blocks :: "block list" where
  "negative_column_blocks =
     [mk_table ''t1'' [''c1''],
      (empty_block ''c1'' ''CELL'')\<lparr>Text := Some ''stray'', ColumnIndex := Some (- 5)\<rparr>]"

text \<open>Two LINE blocks, the first with the text of the Tables header.\<close>

definition header_text_blocks :: "block list" where
  "header_text_blocks = [mk_line ''l1'' ''### Tables'' (1 / 10) 0, mk_line ''l2'' ''x'' (2 / 10) 0]"

section \<open>Properties of text composition\<close>

lemma word_ids_loop_append:
  "word_ids_loop bm text_parts ids = text_parts @ word_texts_of_ids bm ids"
proof (induction ids arbitrary: text_parts)
  case Nil
  show ?case by (simp add: word_texts_of_ids_def)
next
  case (Cons child_id ids)
  show ?case
  proof (cases "bm child_id")
    case None
    then show ?thesis
      using Cons.IH [of text_parts]
      by (simp add: word_texts_of_ids_def)
  next
    case (Some child_block)
    then show ?thesis
      using Cons.IH [of text_parts]
            Cons.IH [of "text_parts @ [case Text child_block of None \<Rightarrow> [] | Some t \<Rightarrow> t]"]
      by (simp add: word_texts_of_ids_def)
  qed
qed

lemma child_rels_loop_append:
  "child_rels_loop bm text_parts rels =
     text_parts @ concat (map (\<lambda>r. word_texts_of_ids bm (Ids r))
                            (filter (\<lambda>r. Type r = ''CHILD'') rels))"
  by (induction rels arbitrary: text_parts) (simp_all add: word_ids_loop_append)

text \<open>What \<^verbatim>\<open>strip\<close> removes and what it leaves.\<close>

lemma strip_decomp:
  "\<exists>suf. dropWhile isspace s = strip s @ suf \<and> list_all isspace suf"
proof (intro exI conjI)
  let ?d = "dropWhile isspace s"
  have "strip s @ rev (takeWhile isspace (rev ?d))
          = rev (takeWhile isspace (rev ?d) @ dropWhile isspace (rev ?d))"
    by (simp only: rev_append strip_def)
  also have "\<dots> = ?d"
    by (simp only: takeWhile_dropWhile_id rev_rev_ident)
  finally show "?d = strip s @ rev (takeWhile isspace (rev ?d))"
    by (rule sym)
  show "list_all isspace (rev (takeWhile isspace (rev ?d)))"
    by (auto simp: list_all_iff dest: set_takeWhileD)
qed

lemma strip_spec:
  "\<exists>pre suf. s = pre @ strip s @ suf \<and> list_all isspace pre \<and> list_all isspace suf"
proof -
  obtain suf where suf: "dropWhile isspace s = strip s @ suf" "list_all isspace suf"
    using strip_decomp by blast
  have "takeWhile isspace s @ strip s @ suf = takeWhile isspace s @ dropWhile isspace s"
    by (simp only: suf(1))
  also have "\<dots> = s" by simp
  finally have "s = takeWhile isspace s @ strip s @ suf" by (rule sym)
  moreover have "list_all isspace (takeWhile isspace s)"
    by (auto simp: list_all_iff dest: set_takeWhileD)
  ultimately show ?thesis using suf(2) by blast
qed

lemma strip_ends:
  assumes "strip s \<noteq> []"
  shows "\<not> isspace (hd (strip s))" "\<not> isspace (last (strip s))"
proof -
  let ?d = "dropWhile isspace s"
  let ?e = "dropWhile isspace (rev ?d)"
  have e: "?e \<noteq> []" using assms by (simp add: strip_def)
  have l: "last (strip s) = hd ?e" using e by (simp add: strip_def last_rev)
  show "\<not> isspace (last (strip s))"
    using hd_dropWhile [OF e] by (simp add: l)
  obtain suf where suf: "?d = strip s @ suf"
    using strip_decomp by blast
  have d: "?d \<noteq> []" using assms by (simp add: suf)
  have "hd ?d = hd (strip s)" using assms by (simp add: suf)
  then show "\<not> isspace (hd (strip s))"
    using hd_dropWhile [OF d] by simp
qed

lemma join_space_parts:
  "join '' '' parts
     = (case parts of [] \<Rightarrow> [] | p # ps \<Rightarrow> p @ concat (map ((#) CHR '' '') ps))"
proof (induction parts)
  case Nil
  show ?case by simp
next
  case (Cons p ps)
  then show ?case by (cases ps) simp_all
qed

lemma get_text_from_block_parts:
  "get_text_from_block block bm
     = strip (join '' '' ((case Text block of None \<Rightarrow> [] | Some t \<Rightarrow> [t])
                            @ child_word_texts bm block))"
  by (simp add: get_text_from_block_def child_word_texts_def
        child_rels_loop_append split: option.split)

text \<open>
  Claim C7. Take the parts of a block: its own text (when it has one) and then, in
  relationship order and id order, the texts of the WORD blocks its CHILD relationships
  resolve to, a WORD without text counting as the empty part. Write the first part,
  and every later part after one space. The composed text is this string without a
  prefix and a suffix that consist of whitespace only, and it neither starts nor ends
  with a whitespace character.
\<close>

theorem get_text_from_block_spaced_and_trimmed:
  "\<exists>pre suf.
     (case (case Text block of None \<Rightarrow> [] | Some t \<Rightarrow> [t]) @ child_word_texts bm block of
        [] \<Rightarrow> []
      | p # ps \<Rightarrow> p @ concat (map ((#) CHR '' '') ps))
       = pre @ get_text_from_block block bm @ suf
     \<and> list_all isspace pre \<and> list_all isspace suf
     \<and> (get_text_from_block block bm \<noteq> []
          \<longrightarrow> \<not> isspace (hd (get_text_from_block block bm))
              \<and> \<not> isspace (last (get_text_from_block block bm)))"
proof -
  let ?parts = "(case Text block of None \<Rightarrow> [] | Some t \<Rightarrow> [t]) @ child_word_texts bm block"
  have t: "get_text_from_block block bm = strip (join '' '' ?parts)"
    by (rule get_text_from_block_parts)
  obtain pre suf where d: "join '' '' ?parts = pre @ strip (join '' '' ?parts) @ suf"
    "list_all isspace pre" "list_all isspace suf"
    using strip_spec [of "join '' '' ?parts"] by blast
  have e: "strip (join '' '' ?parts) \<noteq> []
             \<longrightarrow> \<not> isspace (hd (strip (join '' '' ?parts)))
                 \<and> \<not> isspace (last (strip (join '' '' ?parts)))"
    using strip_ends [of "join '' '' ?parts"] by blast
  have j: "(case ?parts of [] \<Rightarrow> [] | p # ps \<Rightarrow> p @ concat (map ((#) CHR '' '') ps))
             = pre @ get_text_from_block block bm @ suf"
    using d(1) unfolding t join_space_parts [symmetric] .
  show ?thesis
    using j d(2,3) e unfolding t [symmetric] by blast
qed

theorem get_text_from_block_spaced_and_trimmed_witness:
  "child_word_texts (block_map compose_blocks) compose_parent
     = [''Amount'', [], ''Due'' @ [CHR 0xA0]]
   \<and> get_text_from_block compose_parent (block_map compose_blocks) = ''Total  Amount  Due''"
proof -
  have a: "child_word_texts (block_map compose_blocks) compose_parent
     = [''Amount'', [], ''Due'' @ [CHR 0xA0]]"
    by code_simp
  have b: "get_text_from_block compose_parent (block_map compose_blocks) = ''Total  Amount  Due''"
    by code_simp
  show ?thesis
    using a b get_text_from_block_spaced_and_trimmed [of compose_parent "block_map compose_blocks"]
    by simp
qed

section \<open>Properties of the table reconstructor\<close>

lemma foldl_max_Max: "foldl max x xs = Max (set (x # xs))"
proof -
  have "foldl max x xs = fold max xs x"
    by (simp add: foldl_conv_fold max.commute)
  then show ?thesis using Max.set_eq_fold [of x xs] by simp
qed

lemma py_max_Max: "xs \<noteq> [] \<Longrightarrow> py_max xs = Inr (Max (set xs))"
  by (cases xs) (simp_all only: py_max.simps foldl_max_Max, simp)

lemma py_index_pos:
  assumes "0 \<le> r" "r < int n"
  shows "py_index n (r - 1) = Some (grid_pos n r)" "grid_pos n r < n"
  using assms by (auto simp: py_index_def grid_pos_def)

lemma grid_pos_inj:
  assumes "0 \<le> r" "r < int n" "0 \<le> r'" "r' < int n"
  shows "grid_pos n r = grid_pos n r' \<longleftrightarrow> r = r'"
  using assms by (auto simp: grid_pos_def split: if_splits)

lemma grid_set_ok:
  assumes "rect n m g" "0 \<le> r" "r < int n" "0 \<le> c" "c < int m"
  shows "grid_set g (r - 1) (c - 1) t =
           Inr (g[grid_pos n r := (g ! grid_pos n r)[grid_pos m c := Some t]])"
proof -
  have len: "length g = n" using assms(1) by (simp add: rect_def)
  have i: "grid_pos n r < n" using assms by (simp add: py_index_pos)
  then have "g ! grid_pos n r \<in> set g" using len by simp
  then have lrow: "length (g ! grid_pos n r) = m" using assms(1) by (simp add: rect_def)
  show ?thesis
    using assms by (simp add: grid_set_def len lrow py_index_pos)
qed

lemma rect_update:
  assumes "rect n m g" "i < n"
  shows "rect n m (g[i := (g ! i)[j := v]])"
  using assms by (auto simp: rect_def dest!: set_update_subset_insert [THEN subsetD])

lemma rect_nth: "rect n m g \<Longrightarrow> i < n \<Longrightarrow> length (g ! i) = m"
  by (simp add: rect_def)

lemma fill_grid_final:
  assumes "rect n m g"
    and "\<forall>x\<in>set cs. 0 \<le> row_index x \<and> row_index x < int n \<and> 0 \<le> column_index x \<and> column_index x < int m"
  shows "\<exists>g'. fill_grid bm g cs = Inr g' \<and> rect n m g' \<and>
           (\<forall>i<n. \<forall>j<m. g' ! i ! j =
              (case filter (\<lambda>x. grid_pos n (row_index x) = i \<and> grid_pos m (column_index x) = j) cs of
                 [] \<Rightarrow> g ! i ! j
               | y # ys \<Rightarrow> Some (get_text_from_block (last (y # ys)) bm)))"
  using assms
proof (induction cs arbitrary: g)
  case Nil
  then show ?case by simp
next
  case (Cons x xs)
  let ?i0 = "grid_pos n (row_index x)"
  let ?j0 = "grid_pos m (column_index x)"
  let ?t = "get_text_from_block x bm"
  let ?g1 = "g[?i0 := (g ! ?i0)[?j0 := Some ?t]]"
  have rng: "0 \<le> row_index x" "row_index x < int n" "0 \<le> column_index x" "column_index x < int m"
    using Cons.prems(2) by simp_all
  have i0: "?i0 < n" and j0: "?j0 < m" using rng by (simp_all add: py_index_pos)
  have step: "grid_set g (row_index x - 1) (column_index x - 1) ?t = Inr ?g1"
    using grid_set_ok [OF Cons.prems(1) rng] .
  have r1: "rect n m ?g1" using rect_update [OF Cons.prems(1) i0] .
  have rest: "\<forall>x\<in>set xs. 0 \<le> row_index x \<and> row_index x < int n \<and> 0 \<le> column_index x \<and> column_index x < int m"
    using Cons.prems(2) by simp
  from Cons.IH [OF r1 rest] obtain g' where
    g': "fill_grid bm ?g1 xs = Inr g'" "rect n m g'"
    and cells: "\<forall>i<n. \<forall>j<m. g' ! i ! j =
              (case filter (\<lambda>x. grid_pos n (row_index x) = i \<and> grid_pos m (column_index x) = j) xs of
                 [] \<Rightarrow> ?g1 ! i ! j
               | y # ys \<Rightarrow> Some (get_text_from_block (last (y # ys)) bm))"
    by blast
  have len: "length g = n" using Cons.prems(1) by (simp add: rect_def)
  have lrow: "length (g ! ?i0) = m" using rect_nth [OF Cons.prems(1) i0] .
  have "fill_grid bm g (x # xs) = Inr g'" using step g'(1) by simp
  moreover have "\<forall>i<n. \<forall>j<m. g' ! i ! j =
              (case filter (\<lambda>x. grid_pos n (row_index x) = i \<and> grid_pos m (column_index x) = j) (x # xs) of
                 [] \<Rightarrow> g ! i ! j
               | y # ys \<Rightarrow> Some (get_text_from_block (last (y # ys)) bm))"
  proof (intro allI impI)
    fix i j assume ij: "i < n" "j < m"
    let ?f = "filter (\<lambda>x. grid_pos n (row_index x) = i \<and> grid_pos m (column_index x) = j) xs"
    have c: "g' ! i ! j = (case ?f of [] \<Rightarrow> ?g1 ! i ! j
               | y # ys \<Rightarrow> Some (get_text_from_block (last (y # ys)) bm))"
      using cells ij by blast
    show "g' ! i ! j =
              (case filter (\<lambda>x. grid_pos n (row_index x) = i \<and> grid_pos m (column_index x) = j) (x # xs) of
                 [] \<Rightarrow> g ! i ! j
               | y # ys \<Rightarrow> Some (get_text_from_block (last (y # ys)) bm))"
    proof (cases "?i0 = i \<and> ?j0 = j")
      case True
      then have "?g1 ! i ! j = Some ?t" using ij len lrow by auto
      then show ?thesis using c True by (cases ?f) auto
    next
      case False
      then have "?g1 ! i ! j = g ! i ! j"
        using ij len by (cases "?i0 = i") auto
      then show ?thesis using c False by (cases ?f) auto
    qed
  qed
  ultimately show ?case using g'(2) by blast
qed

lemma build_grid_final:
  assumes ne: "table_cells \<noteq> []"
    and nonneg: "\<forall>y\<in>set table_cells. 0 \<le> row_index y \<and> 0 \<le> column_index y"
  defines "n \<equiv> nat (Max (set (map row_index table_cells)) + 1)"
    and "m \<equiv> nat (Max (set (map column_index table_cells)) + 1)"
  shows "\<exists>g. build_grid bm table_cells = Inr g \<and> rect n m g \<and>
           (\<forall>x\<in>set table_cells.
              py_index n (row_index x - 1) = Some (grid_pos n (row_index x)) \<and>
              py_index m (column_index x - 1) = Some (grid_pos m (column_index x)) \<and>
              grid_pos n (row_index x) < n \<and> grid_pos m (column_index x) < m \<and>
              g ! grid_pos n (row_index x) ! grid_pos m (column_index x) =
                Some (get_text_from_block
                        (last (filter (\<lambda>y. cell_key y = cell_key x) table_cells)) bm))"
proof -
  let ?cs = "sort_key cell_key table_cells"
  let ?g0 = "replicate n (replicate m None) :: grid"
  have "length ?cs = length table_cells" by simp
  then have "?cs \<noteq> []" using ne by (metis length_0_conv)
  then have sne: "map row_index ?cs \<noteq> []" "map column_index ?cs \<noteq> []"
    by simp_all
  have mr: "py_max (map row_index ?cs) = Inr (Max (set (map row_index table_cells)))"
    using py_max_Max [OF sne(1)] by simp
  have mc: "py_max (map column_index ?cs) = Inr (Max (set (map column_index table_cells)))"
    using py_max_Max [OF sne(2)] by simp
  have bg: "build_grid bm table_cells = fill_grid bm ?g0 ?cs"
    by (simp add: build_grid_def mr mc n_def m_def)
  have r0: "rect n m ?g0" by (simp add: rect_def)
  have rng: "\<forall>x\<in>set table_cells. 0 \<le> row_index x \<and> row_index x < int n
               \<and> 0 \<le> column_index x \<and> column_index x < int m"
  proof
    fix x assume x: "x \<in> set table_cells"
    have a: "row_index x \<le> Max (set (map row_index table_cells))"
      using x by (intro Max_ge) auto
    have b: "column_index x \<le> Max (set (map column_index table_cells))"
      using x by (intro Max_ge) auto
    have c: "0 \<le> row_index x" "0 \<le> column_index x"
      using nonneg x by auto
    show "0 \<le> row_index x \<and> row_index x < int n
               \<and> 0 \<le> column_index x \<and> column_index x < int m"
      unfolding n_def m_def using a b c by linarith
  qed
  then have rng': "\<forall>x\<in>set ?cs. 0 \<le> row_index x \<and> row_index x < int n
               \<and> 0 \<le> column_index x \<and> column_index x < int m"
    by simp
  from fill_grid_final [OF r0 rng', of bm] obtain g where
    g: "fill_grid bm ?g0 ?cs = Inr g" "rect n m g"
    and cells: "\<forall>i<n. \<forall>j<m. g ! i ! j =
              (case filter (\<lambda>x. grid_pos n (row_index x) = i \<and> grid_pos m (column_index x) = j) ?cs of
                 [] \<Rightarrow> ?g0 ! i ! j
               | y # ys \<Rightarrow> Some (get_text_from_block (last (y # ys)) bm))"
    by blast
  have "\<forall>x\<in>set table_cells.
              py_index n (row_index x - 1) = Some (grid_pos n (row_index x)) \<and>
              py_index m (column_index x - 1) = Some (grid_pos m (column_index x)) \<and>
              grid_pos n (row_index x) < n \<and> grid_pos m (column_index x) < m \<and>
              g ! grid_pos n (row_index x) ! grid_pos m (column_index x) =
                Some (get_text_from_block
                        (last (filter (\<lambda>y. cell_key y = cell_key x) table_cells)) bm)"
  proof
    fix x assume x: "x \<in> set table_cells"
    have xr: "0 \<le> row_index x" "row_index x < int n" "0 \<le> column_index x" "column_index x < int m"
      using rng x by simp_all
    let ?i = "grid_pos n (row_index x)" and ?j = "grid_pos m (column_index x)"
    have ij: "?i < n" "?j < m" using xr by (simp_all add: py_index_pos)
    have same: "filter (\<lambda>y. grid_pos n (row_index y) = ?i \<and> grid_pos m (column_index y) = ?j) ?cs
                 = filter (\<lambda>y. cell_key y = cell_key x) ?cs"
    proof (rule filter_cong [OF refl])
      fix y assume "y \<in> set ?cs"
      then have y: "0 \<le> row_index y" "row_index y < int n" "0 \<le> column_index y" "column_index y < int m"
        using rng' by simp_all
      show "(grid_pos n (row_index y) = ?i \<and> grid_pos m (column_index y) = ?j) = (cell_key y = cell_key x)"
        using grid_pos_inj [OF y(1,2) xr(1,2)] grid_pos_inj [OF y(3,4) xr(3,4)]
        by (simp add: cell_key_def)
    qed
    have stable: "filter (\<lambda>y. cell_key y = cell_key x) ?cs
                   = filter (\<lambda>y. cell_key y = cell_key x) table_cells"
      by (rule sort_key_stable)
    have "x \<in> set (filter (\<lambda>y. cell_key y = cell_key x) table_cells)"
      using x by simp
    then obtain y ys where f: "filter (\<lambda>y. cell_key y = cell_key x) table_cells = y # ys"
      by (cases "filter (\<lambda>y. cell_key y = cell_key x) table_cells") auto
    have "g ! ?i ! ?j = Some (get_text_from_block
                        (last (filter (\<lambda>y. cell_key y = cell_key x) table_cells)) bm)"
      using cells ij by (simp add: same stable f)
    then show "py_index n (row_index x - 1) = Some ?i \<and>
              py_index m (column_index x - 1) = Some ?j \<and> ?i < n \<and> ?j < m \<and>
              g ! ?i ! ?j =
                Some (get_text_from_block
                        (last (filter (\<lambda>y. cell_key y = cell_key x) table_cells)) bm)"
      using xr ij by (simp add: py_index_pos)
  qed
  then show ?thesis using bg g by auto
qed

lemma build_grid_cell_text:
  assumes "x \<in> set table_cells"
    and "\<forall>y\<in>set table_cells. 0 \<le> row_index y \<and> 0 \<le> column_index y"
  shows "\<exists>g i j. build_grid bm table_cells = Inr g
           \<and> py_index (length g) (row_index x - 1) = Some i
           \<and> py_index (length (g ! i)) (column_index x - 1) = Some j
           \<and> g ! i ! j = Some (get_text_from_block
                                  (last (filter (\<lambda>y. cell_key y = cell_key x) table_cells)) bm)"
proof -
  have ne: "table_cells \<noteq> []" using assms(1) by auto
  from build_grid_final [OF ne assms(2), of bm] obtain g where
    g: "build_grid bm table_cells = Inr g"
       "rect (nat (Max (set (map row_index table_cells)) + 1))
             (nat (Max (set (map column_index table_cells)) + 1)) g"
    and cells: "\<forall>x\<in>set table_cells.
              py_index (nat (Max (set (map row_index table_cells)) + 1)) (row_index x - 1)
                = Some (grid_pos (nat (Max (set (map row_index table_cells)) + 1)) (row_index x)) \<and>
              py_index (nat (Max (set (map column_index table_cells)) + 1)) (column_index x - 1)
                = Some (grid_pos (nat (Max (set (map column_index table_cells)) + 1)) (column_index x)) \<and>
              grid_pos (nat (Max (set (map row_index table_cells)) + 1)) (row_index x)
                < nat (Max (set (map row_index table_cells)) + 1) \<and>
              grid_pos (nat (Max (set (map column_index table_cells)) + 1)) (column_index x)
                < nat (Max (set (map column_index table_cells)) + 1) \<and>
              g ! grid_pos (nat (Max (set (map row_index table_cells)) + 1)) (row_index x)
                ! grid_pos (nat (Max (set (map column_index table_cells)) + 1)) (column_index x) =
                Some (get_text_from_block
                        (last (filter (\<lambda>y. cell_key y = cell_key x) table_cells)) bm)"
    by blast
  let ?n = "nat (Max (set (map row_index table_cells)) + 1)"
  let ?m = "nat (Max (set (map column_index table_cells)) + 1)"
  have len: "length g = ?n" using g(2) by (simp add: rect_def)
  have cx: "py_index ?n (row_index x - 1) = Some (grid_pos ?n (row_index x))"
       "py_index ?m (column_index x - 1) = Some (grid_pos ?m (column_index x))"
       "grid_pos ?n (row_index x) < ?n"
       "g ! grid_pos ?n (row_index x) ! grid_pos ?m (column_index x) =
                Some (get_text_from_block
                        (last (filter (\<lambda>y. cell_key y = cell_key x) table_cells)) bm)"
    using cells assms(1) by blast+
  have lrow: "length (g ! grid_pos ?n (row_index x)) = ?m"
    using rect_nth [OF g(2) cx(3)] .
  show ?thesis
    using g(1) cx(1,2,4) len lrow by (metis (no_types, lifting))
qed

text \<open>
  Claim C10, amended. When the cells of a table all have indices that are not negative,
  building the grid succeeds, and the place the code computes for a cell \<open>x\<close> holds one
  text: that of the last cell of the list (the order of the CHILD relationship) that has
  the same (RowIndex, ColumnIndex) pair as \<open>x\<close>. The sort on the pair is stable, so among
  cells with equal pairs the later one is written later and replaces the earlier one.
\<close>

theorem build_grid_later_duplicate_wins:
  assumes "x \<in> set table_cells"
    and "\<forall>y\<in>set table_cells. 0 \<le> row_index y \<and> 0 \<le> column_index y"
  shows "\<exists>g i j. build_grid bm table_cells = Inr g
           \<and> py_index (length g) (row_index x - 1) = Some i
           \<and> py_index (length (g ! i)) (column_index x - 1) = Some j
           \<and> g ! i ! j = Some (get_text_from_block
                                  (last (filter (\<lambda>y. cell_key y = cell_key x) table_cells)) bm)"
  using assms by (rule build_grid_cell_text)

theorem build_grid_later_duplicate_wins_witness:
  "mk_cell ''c1'' 1 1 ''old'' \<in> set dup_cells
   \<and> list_all (\<lambda>y. 0 \<le> row_index y \<and> 0 \<le> column_index y) dup_cells
   \<and> last (filter (\<lambda>y. cell_key y = cell_key (mk_cell ''c1'' 1 1 ''old'')) dup_cells)
       = mk_cell ''c3'' 1 1 ''new''
   \<and> (\<exists>g i j. build_grid Map.empty dup_cells = Inr g
           \<and> py_index (length g) (row_index (mk_cell ''c1'' 1 1 ''old'') - 1) = Some i
           \<and> py_index (length (g ! i)) (column_index (mk_cell ''c1'' 1 1 ''old'') - 1) = Some j
           \<and> g ! i ! j = Some (get_text_from_block (mk_cell ''c3'' 1 1 ''new'') Map.empty))"
proof -
  have h1: "mk_cell ''c1'' 1 1 ''old'' \<in> set dup_cells"
    by (simp add: dup_cells_def)
  have h2: "\<forall>y\<in>set dup_cells. 0 \<le> row_index y \<and> 0 \<le> column_index y"
    by (simp add: dup_cells_def mk_cell_def empty_block_def row_index_def column_index_def)
  have h3: "last (filter (\<lambda>y. cell_key y = cell_key (mk_cell ''c1'' 1 1 ''old'')) dup_cells)
       = mk_cell ''c3'' 1 1 ''new''"
    by (simp add: dup_cells_def mk_cell_def empty_block_def cell_key_def row_index_def
          column_index_def)
  have h2': "list_all (\<lambda>y. 0 \<le> row_index y \<and> 0 \<le> column_index y) dup_cells"
    using h2 by (simp add: list_all_iff)
  show ?thesis
    using h1 h2' h3 build_grid_later_duplicate_wins [OF h1 h2, of Map.empty] by simp
qed

text \<open>
  Claim C10, as stated, fails when an index is negative: a negative coordinate counts
  from the end of the grid, so cells with different index pairs can share a place. Two
  cells at row \<open>-2\<close> and a cell at row 2, in a grid of four rows, are all written to the
  second row; the cell at row 2 is sorted last, and its text two is what remains there,
  not the text of the later of the two cells with equal pairs.
\<close>

theorem duplicates_at_negative_index_are_overwritten:
  "map cell_key negative_dup_cells = [(- 2, 1), (- 2, 1), (2, 1), (3, 1)]
   \<and> py_index 4 (- 2 - 1) = Some 1 \<and> py_index 2 (1 - 1) = Some 0
   \<and> build_grid Map.empty negative_dup_cells
       = Inr [[None, None], [Some ''two'', None], [Some ''three'', None], [None, None]]"
  by code_simp

lemma dup_cells_grid:
  "build_grid Map.empty dup_cells = Inr [[Some ''new'', Some ''Qty'', None], [None, None, None]]"
  by code_simp

text \<open>The extent of the grid, and the number of lines the rows of a grid give.\<close>

lemma build_grid_extent:
  assumes "table_cells \<noteq> []"
    and "\<forall>y\<in>set table_cells. 0 \<le> row_index y \<and> 0 \<le> column_index y"
  shows "\<exists>g. build_grid bm table_cells = Inr g
           \<and> rect (nat (Max (set (map row_index table_cells)) + 1))
                   (nat (Max (set (map column_index table_cells)) + 1)) g"
  using build_grid_final [OF assms, of bm] by blast

lemma render_rows_length:
  "length (render_rows i markdown_table g)
     = length markdown_table + length g + (if i = 0 \<and> g \<noteq> [] then 1 else 0)"
proof (induction g arbitrary: i markdown_table)
  case Nil
  show ?case by simp
next
  case (Cons row rows)
  show ?case
  proof (cases "i = 0")
    case True
    then show ?thesis
      using Cons.IH [of "Suc 0"] by (simp add: Let_def)
  next
    case False
    then show ?thesis
      using Cons.IH [of "Suc i"] by (simp add: Let_def)
  qed
qed

text \<open>
  Claim C1. The grid has one row more than the largest row index and one column more
  than the largest column index (lemma \<open>build_grid_extent\<close>), and a grid with rows gives
  one line more than it has rows (lemma \<open>render_rows_length\<close>). For the round-trip table
  of the specification (rows 1..2, columns 1..2) the rendered table has four lines of
  three cells each, where the claim has three lines of two cells: a third, empty column
  and a last, empty row.
\<close>

theorem round_trip_table_extra_row_and_column:
  "extract_table_content round_trip_blocks (hd round_trip_blocks) []
     = Inr ''| Item | Qty |  |\<newline>| --- | --- | --- |\<newline>| Widget | 3 |  |\<newline>|  |  |  |''"
  by code_simp

lemma cell_ids_loop_append:
  "cell_ids_loop bm table_cells ids =
     table_cells @ filter (\<lambda>b. BlockType b = ''CELL'') (List.map_filter bm ids)"
proof (induction ids arbitrary: table_cells)
  case Nil
  show ?case by simp
next
  case (Cons cell_id ids)
  show ?case
  proof (cases "bm cell_id")
    case None
    then show ?thesis using Cons.IH [of table_cells] by simp
  next
    case (Some cell_block)
    then show ?thesis
      using Cons.IH [of table_cells] Cons.IH [of "table_cells @ [cell_block]"] by simp
  qed
qed

lemma cell_rels_loop_append:
  "cell_rels_loop bm table_cells rels =
     table_cells @ concat (map (\<lambda>r. filter (\<lambda>b. BlockType b = ''CELL'') (List.map_filter bm (Ids r)))
                            (filter (\<lambda>r. Type r = ''CHILD'') rels))"
  by (induction rels arbitrary: table_cells) (simp_all add: cell_ids_loop_append)

lemma get_table_cells_resolved:
  "get_table_cells bm table_block =
     (case Relationships table_block of
        None \<Rightarrow> []
      | Some rels \<Rightarrow>
          concat (map (\<lambda>r. filter (\<lambda>b. BlockType b = ''CELL'') (List.map_filter bm (Ids r)))
                   (filter (\<lambda>r. Type r = ''CHILD'') rels)))"
  by (simp add: get_table_cells_def cell_rels_loop_append split: option.split)

lemma py_index_minus_one: "py_index n (- 1) = Some i \<Longrightarrow> i = n - 1 \<and> 0 < n"
  by (auto simp: py_index_def split: if_splits)

text \<open>
  Claim C9, amended. In a table whose cells have no negative index, a resolved CELL child
  without \<^verbatim>\<open>RowIndex\<close> or \<^verbatim>\<open>ColumnIndex\<close> raises nothing: the table is rendered. The
  missing index counts as 0, the coordinate is \<open>-1\<close>, and the place written is in the
  last row (for a missing \<^verbatim>\<open>RowIndex\<close>) and in the last column (for a missing
  \<^verbatim>\<open>ColumnIndex\<close>) of the grid. The text that remains there is that of the last cell of
  the list with the same pair of indices: the text of the cell itself when no later cell
  shares its pair, and otherwise the text of the later cell, which replaces it.
\<close>

theorem cell_without_index_kept_in_last_row_or_column:
  assumes "x \<in> set (get_table_cells (block_map blocks) table_block)"
    and "\<forall>y\<in>set (get_table_cells (block_map blocks) table_block).
            0 \<le> row_index y \<and> 0 \<le> column_index y"
    and "RowIndex x = None \<or> ColumnIndex x = None"
  shows "\<exists>g i j. build_grid (block_map blocks) (get_table_cells (block_map blocks) table_block) = Inr g
           \<and> extract_table_content blocks table_block cell_blocks = Inr (render_grid g)
           \<and> py_index (length g) (row_index x - 1) = Some i
           \<and> py_index (length (g ! i)) (column_index x - 1) = Some j
           \<and> g ! i ! j = Some (get_text_from_block
                  (last (filter (\<lambda>y. cell_key y = cell_key x)
                           (get_table_cells (block_map blocks) table_block))) (block_map blocks))
           \<and> (last (filter (\<lambda>y. cell_key y = cell_key x)
                       (get_table_cells (block_map blocks) table_block)) = x
                \<longrightarrow> g ! i ! j = Some (get_text_from_block x (block_map blocks)))
           \<and> (RowIndex x = None \<longrightarrow> row_index x - 1 = - 1 \<and> 0 < length g \<and> i = length g - 1)
           \<and> (ColumnIndex x = None \<longrightarrow>
                  column_index x - 1 = - 1 \<and> 0 < length (g ! i) \<and> j = length (g ! i) - 1)"
proof -
  let ?bm = "block_map blocks"
  let ?cells = "get_table_cells ?bm table_block"
  from build_grid_cell_text [OF assms(1,2), of ?bm] obtain g i j where
    g: "build_grid ?bm ?cells = Inr g"
    and i: "py_index (length g) (row_index x - 1) = Some i"
    and j: "py_index (length (g ! i)) (column_index x - 1) = Some j"
    and t: "g ! i ! j = Some (get_text_from_block
                  (last (filter (\<lambda>y. cell_key y = cell_key x) ?cells)) ?bm)"
    by blast
  have own: "last (filter (\<lambda>y. cell_key y = cell_key x) ?cells) = x
                \<longrightarrow> g ! i ! j = Some (get_text_from_block x ?bm)"
    using t by simp
  have ne: "?cells \<noteq> []" using assms(1) by auto
  have e: "extract_table_content blocks table_block cell_blocks = Inr (render_grid g)"
    using ne g by (simp add: extract_table_content_def Let_def)
  have r: "RowIndex x = None \<longrightarrow> row_index x - 1 = - 1 \<and> 0 < length g \<and> i = length g - 1"
  proof
    assume "RowIndex x = None"
    then have "row_index x - 1 = - 1" by (simp add: row_index_def)
    then show "row_index x - 1 = - 1 \<and> 0 < length g \<and> i = length g - 1"
      using i py_index_minus_one [of "length g" i] by simp
  qed
  have c: "ColumnIndex x = None \<longrightarrow>
                  column_index x - 1 = - 1 \<and> 0 < length (g ! i) \<and> j = length (g ! i) - 1"
  proof
    assume "ColumnIndex x = None"
    then have "column_index x - 1 = - 1" by (simp add: column_index_def)
    then show "column_index x - 1 = - 1 \<and> 0 < length (g ! i) \<and> j = length (g ! i) - 1"
      using j py_index_minus_one [of "length (g ! i)" j] by simp
  qed
  show ?thesis
    by (intro exI [of _ g] exI [of _ i] exI [of _ j] conjI g e i j t own r c)
qed

theorem cell_without_index_kept_in_last_row_or_column_witness:
  "stray_cell \<in> set (get_table_cells (block_map no_row_blocks) (hd no_row_blocks))
   \<and> list_all (\<lambda>y. 0 \<le> row_index y \<and> 0 \<le> column_index y)
         (get_table_cells (block_map no_row_blocks) (hd no_row_blocks))
   \<and> RowIndex stray_cell = None
   \<and> (\<exists>g i j. build_grid (block_map no_row_blocks)
                  (get_table_cells (block_map no_row_blocks) (hd no_row_blocks)) = Inr g
           \<and> extract_table_content no_row_blocks (hd no_row_blocks) [] = Inr (render_grid g)
           \<and> py_index (length g) (row_index stray_cell - 1) = Some i
           \<and> py_index (length (g ! i)) (column_index stray_cell - 1) = Some j
           \<and> g ! i ! j = Some (get_text_from_block
                  (last (filter (\<lambda>y. cell_key y = cell_key stray_cell)
                           (get_table_cells (block_map no_row_blocks) (hd no_row_blocks))))
                  (block_map no_row_blocks))
           \<and> 0 < length g \<and> i = length g - 1)"
proof -
  have cells: "get_table_cells (block_map no_row_blocks) (hd no_row_blocks)
                 = [mk_cell ''c1'' 1 1 ''Item'', stray_cell]"
    by code_simp
  have h1: "stray_cell \<in> set (get_table_cells (block_map no_row_blocks) (hd no_row_blocks))"
    by (simp add: cells)
  have h2: "\<forall>y\<in>set (get_table_cells (block_map no_row_blocks) (hd no_row_blocks)).
              0 \<le> row_index y \<and> 0 \<le> column_index y"
    by (simp add: cells stray_cell_def mk_cell_def empty_block_def row_index_def
          column_index_def)
  have h3: "RowIndex stray_cell = None"
    by (simp add: stray_cell_def empty_block_def)
  have h3': "RowIndex stray_cell = None \<or> ColumnIndex stray_cell = None"
    using h3 by simp
  have h2': "list_all (\<lambda>y. 0 \<le> row_index y \<and> 0 \<le> column_index y)
         (get_table_cells (block_map no_row_blocks) (hd no_row_blocks))"
    using h2 by (simp add: list_all_iff)
  show ?thesis
    using h1 h2' h3
      cell_without_index_kept_in_last_row_or_column [OF h1 h2 h3', of "[]"]
    by blast
qed

text \<open>
  Claim C9, as stated, fails. Of two cells without \<^verbatim>\<open>RowIndex\<close> in the same column, both
  are written to the same place of the last row, and the text of the first (lost) is
  replaced by that of the second (kept). And a cell without \<^verbatim>\<open>RowIndex\<close> whose column
  index is \<open>-5\<close> makes the assignment raise \<^verbatim>\<open>IndexError\<close>.
\<close>

theorem index_less_cell_is_overwritten_or_raises:
  "get_table_cells (block_map two_stray_blocks) (hd two_stray_blocks)
     = [mk_cell ''c1'' 1 1 ''Item'', lost_cell, kept_cell]
   \<and> RowIndex lost_cell = None
   \<and> build_grid (block_map two_stray_blocks) [mk_cell ''c1'' 1 1 ''Item'', lost_cell, kept_cell]
       = Inr [[Some ''Item'', None], [Some ''kept'', None]]
   \<and> extract_table_content two_stray_blocks (hd two_stray_blocks) []
       = Inr ''| Item |  |\<newline>| --- | --- |\<newline>| kept |  |''
   \<and> extract_table_content negative_column_blocks (hd negative_column_blocks) []
       = Inl (IndexError ''list assignment index out of range'')"
  by code_simp

lemma no_row_table_rendered:
  "extract_table_content no_row_blocks (hd no_row_blocks) []
     = Inr ''| Item |  |\<newline>| --- | --- |\<newline>| stray |  |''"
  by code_simp

section \<open>Properties of the form-field extractor\<close>

lemma value_ids_loop_first:
  "value_ids_loop bm value_text ids =
     (case first_value_block bm ids of
        None \<Rightarrow> value_text
      | Some vb \<Rightarrow> get_text_from_block vb bm)"
proof (induction ids)
  case Nil
  show ?case by (simp add: first_value_block_def)
next
  case (Cons value_id ids)
  show ?case
  proof (cases "bm value_id")
    case None
    then show ?thesis
      using Cons.IH by (simp add: first_value_block_def resolves_to_value_def)
  next
    case (Some vb)
    then show ?thesis
      using Cons.IH by (simp add: first_value_block_def resolves_to_value_def)
  qed
qed

lemma value_rels_loop_last:
  "value_rels_loop bm value_text rels =
     (case List.map_filter (\<lambda>r. first_value_block bm (Ids r))
             (filter (\<lambda>r. Type r = ''VALUE'') rels) of
        [] \<Rightarrow> value_text
      | b # bs \<Rightarrow> get_text_from_block (last (b # bs)) bm)"
proof (induction rels arbitrary: value_text)
  case Nil
  show ?case by (simp add: List.map_filter_simps)
next
  case (Cons r rs)
  show ?case
  proof (cases "Type r = ''VALUE''")
    case False
    then show ?thesis using Cons.IH [of value_text] by simp
  next
    case True
    show ?thesis
    proof (cases "first_value_block bm (Ids r)")
      case None
      then show ?thesis
        using True Cons.IH [of value_text]
        by (simp add: value_ids_loop_first List.map_filter_simps)
    next
      case (Some vb)
      then show ?thesis
        using True Cons.IH [of "get_text_from_block vb bm"]
        by (simp add: value_ids_loop_first List.map_filter_simps split: list.split)
    qed
  qed
qed

lemma find_value_text_last:
  "find_value_text bm kv_block =
     (case resolved_value_blocks bm kv_block of
        [] \<Rightarrow> []
      | b # bs \<Rightarrow> get_text_from_block (last (b # bs)) bm)"
  by (simp add: find_value_text_def resolved_value_blocks_def value_relationships_def
        value_rels_loop_last List.map_filter_simps split: option.split)

lemma first_value_block_none:
  "\<forall>vid\<in>set ids. \<not> resolves_to_value bm vid \<Longrightarrow> first_value_block bm ids = None"
  by (simp add: first_value_block_def filter_empty_conv [THEN iffD2])

lemma resolved_value_blocks_none:
  assumes "\<forall>vid\<in>set (value_target_ids kv_block). \<not> resolves_to_value bm vid"
  shows "resolved_value_blocks bm kv_block = []"
proof -
  have "\<forall>r\<in>set (value_relationships kv_block). first_value_block bm (Ids r) = None"
    using assms by (auto simp: value_target_ids_def intro!: first_value_block_none)
  then show ?thesis
    by (simp add: resolved_value_blocks_def List.map_filter_def filter_empty_conv)
qed

lemma kv_step_candidate:
  "kv_step bm d kv_block =
     (case kv_candidate bm kv_block of None \<Rightarrow> d | Some p \<Rightarrow> dict_set d (fst p) (snd p))"
  by (simp add: kv_step_def kv_candidate_def Let_def)

lemma dict_set_keys:
  "map fst (dict_set d k v) = (if k \<in> set (map fst d) then map fst d else map fst d @ [k])"
  by (induction d) (auto simp: rev_image_eqI)

lemma dict_set_map_of: "map_of (dict_set d k v) = (map_of d)(k \<mapsto> v)"
  by (induction d) (auto simp: fun_eq_iff)

lemma dict_set_entries_subset: "set (dict_set d k v) \<subseteq> insert (k, v) (set d)"
  by (induction d) (auto split: if_splits)

lemma foldl_kv_step:
  "foldl (kv_step bm) d kvs = foldl (\<lambda>d p. dict_set d (fst p) (snd p)) d (kv_candidates bm kvs)"
proof (induction kvs arbitrary: d)
  case Nil
  show ?case by (simp add: kv_candidates_def List.map_filter_simps)
next
  case (Cons kv kvs)
  show ?case
    using Cons.IH
    by (cases "kv_candidate bm kv")
       (simp_all add: kv_step_candidate kv_candidates_def List.map_filter_simps)
qed

lemma dict_of_keys: "map fst (dict_of ps) = first_occurrences (map fst ps)"
proof (induction ps rule: rev_induct)
  case Nil
  show ?case by (simp add: dict_of_def first_occurrences_def)
next
  case (snoc p ps)
  have "dict_of (ps @ [p]) = dict_set (dict_of ps) (fst p) (snd p)"
    by (simp add: dict_of_def)
  moreover have "set (first_occurrences (map fst ps)) = set (map fst ps)"
    by (simp add: first_occurrences_def)
  ultimately show ?case
    using snoc.IH by (simp add: dict_set_keys first_occurrences_def)
qed

lemma dict_of_distinct: "distinct (map fst (dict_of ps))"
  by (simp add: dict_of_keys first_occurrences_def)

lemma dict_of_map_of: "map_of (dict_of ps) = map_of (rev ps)"
proof (induction ps rule: rev_induct)
  case Nil
  show ?case by (simp add: dict_of_def)
next
  case (snoc p ps)
  have "dict_of (ps @ [p]) = dict_set (dict_of ps) (fst p) (snd p)"
    by (simp add: dict_of_def)
  then show ?case
    using snoc.IH by (cases p) (simp add: dict_set_map_of)
qed

lemma extract_key_value_pairs_dict_of:
  "extract_key_value_pairs blocks kvs = dict_of (kv_candidates (block_map blocks) kvs)"
  by (simp add: extract_key_value_pairs_def foldl_kv_step dict_of_def)

text \<open>
  Claim C2, amended. The output is a dictionary: its names are distinct and stand in the
  order of their first occurrence among the pairs the KEY blocks yield (in the order of
  the KEY blocks in the input); the value of a name is that of the last KEY block
  that yields a pair with this name.
\<close>

theorem extract_key_value_pairs_merges_names:
  "distinct (map fst (extract_key_value_pairs blocks key_value_blocks))
   \<and> map fst (extract_key_value_pairs blocks key_value_blocks)
       = first_occurrences (map fst (kv_candidates (block_map blocks) key_value_blocks))
   \<and> map_of (extract_key_value_pairs blocks key_value_blocks)
       = map_of (rev (kv_candidates (block_map blocks) key_value_blocks))"
  unfolding extract_key_value_pairs_dict_of
  by (intro conjI dict_of_distinct dict_of_keys dict_of_map_of)

lemma kv_candidates_nonempty:
  "p \<in> set (kv_candidates bm kvs) \<Longrightarrow> fst p \<noteq> [] \<and> snd p \<noteq> []"
  by (auto simp: kv_candidates_def List.map_filter_def kv_candidate_def split: if_splits)

lemma dict_of_entries: "set (dict_of ps) \<subseteq> set ps"
proof (induction ps rule: rev_induct)
  case Nil
  show ?case by (simp add: dict_of_def)
next
  case (snoc p ps)
  have "dict_of (ps @ [p]) = dict_set (dict_of ps) (fst p) (snd p)"
    by (simp add: dict_of_def)
  then show ?case
    using snoc.IH dict_set_entries_subset [of "dict_of ps" "fst p" "snd p"] by auto
qed

text \<open>
  When the step for a KEY block adds nothing: no id of a VALUE relationship resolves
  through the index to a block whose entity types are exactly VALUE (a dangling id
  resolves to nothing), or the composed text of the KEY is empty, or the composed text of
  the block that the last resolving VALUE relationship gives is empty. No entry of the
  output has an empty name or an empty value.
\<close>

lemma kv_step_unchanged:
  assumes "(\<forall>vid\<in>set (value_target_ids kv_block). \<not> resolves_to_value bm vid)
           \<or> get_text_from_block kv_block bm = []
           \<or> (resolved_value_blocks bm kv_block \<noteq> []
               \<and> get_text_from_block (last (resolved_value_blocks bm kv_block)) bm = [])"
  shows "kv_step bm key_value_pairs kv_block = key_value_pairs
         \<and> (\<forall>p\<in>set (extract_key_value_pairs blocks key_value_blocks). fst p \<noteq> [] \<and> snd p \<noteq> [])"
proof -
  have "get_text_from_block kv_block bm = [] \<or> find_value_text bm kv_block = []"
    using assms resolved_value_blocks_none [of kv_block bm]
    by (auto simp: find_value_text_last split: list.split)
  then have "kv_step bm key_value_pairs kv_block = key_value_pairs"
    by (auto simp: kv_step_def Let_def)
  moreover have "\<forall>p\<in>set (extract_key_value_pairs blocks key_value_blocks). fst p \<noteq> [] \<and> snd p \<noteq> []"
    using dict_of_entries [of "kv_candidates (block_map blocks) key_value_blocks"]
      kv_candidates_nonempty [of _ "block_map blocks" key_value_blocks]
    by (auto simp: extract_key_value_pairs_dict_of)
  ultimately show ?thesis by blast
qed

text \<open>
  Claim C2, as stated, fails: two KEY blocks that both yield a pair with the name Total
  leave one entry in the output, with the value of the second.
\<close>

theorem duplicate_names_are_merged:
  "kv_candidates (block_map dup_name_blocks) (key_value_blocks_of dup_name_blocks)
     = [(''Total'', ''100''), (''Total'', ''250'')]
   \<and> extract_key_value_pairs dup_name_blocks (key_value_blocks_of dup_name_blocks)
     = [(''Total'', ''250'')]"
  by code_simp

text \<open>
  Claim C4. The \<^verbatim>\<open>break\<close> of the extractor leaves the loop over the ids of one
  relationship, not the loop over the relationships, so a later VALUE relationship that
  resolves replaces the value found through an earlier one (lemma
  \<open>find_value_text_last\<close>). For a KEY block with two VALUE relationships that resolve to
  blocks with the texts first and second, the emitted value is second, where the claim
  has first.
\<close>

theorem two_value_relationships_last_wins:
  "map (\<lambda>b. get_text_from_block b (block_map two_values_blocks))
     (resolved_value_blocks (block_map two_values_blocks) (hd two_values_blocks))
     = [''first'', ''second'']
   \<and> extract_key_value_pairs two_values_blocks (key_value_blocks_of two_values_blocks)
     = [(''Name'', ''second'')]"
  by code_simp

lemma dangling_value_is_dropped:
  "value_target_ids (hd dangling_blocks) = [''missing'']
   \<and> block_map dangling_blocks ''missing'' = None
   \<and> get_text_from_block (hd dangling_blocks) (block_map dangling_blocks) = ''Total''
   \<and> kv_step (block_map dangling_blocks) [] (hd dangling_blocks) = []"
proof -
  have ids: "value_target_ids (hd dangling_blocks) = [''missing'']"
    by code_simp
  have miss: "block_map dangling_blocks ''missing'' = None"
    by code_simp
  have name: "get_text_from_block (hd dangling_blocks) (block_map dangling_blocks) = ''Total''"
    by code_simp
  have h: "(\<forall>vid\<in>set (value_target_ids (hd dangling_blocks)).
               \<not> resolves_to_value (block_map dangling_blocks) vid)
           \<or> get_text_from_block (hd dangling_blocks) (block_map dangling_blocks) = []
           \<or> (resolved_value_blocks (block_map dangling_blocks) (hd dangling_blocks) \<noteq> []
               \<and> get_text_from_block
                     (last (resolved_value_blocks (block_map dangling_blocks) (hd dangling_blocks)))
                     (block_map dangling_blocks) = [])"
    by (simp add: ids miss resolves_to_value_def)
  show ?thesis
    using ids miss name kv_step_unchanged [OF h, of "[]"] by simp
qed

text \<open>
  Claim C5. A KEY block is dropped when no VALUE relationship resolves or when its name
  is empty (lemma \<open>kv_step_unchanged\<close>), but not always when the VALUE block it is paired
  with has an empty text: the loop over the relationships does not stop at the first
  VALUE relationship that resolves. For a KEY block whose first VALUE relationship
  resolves to a block with an empty text and whose second resolves to a block with the
  text second, the pair with the value second is emitted, where the claim has the KEY
  dropped.
\<close>

theorem empty_first_value_pair_is_emitted:
  "map (\<lambda>b. get_text_from_block b (block_map empty_first_blocks))
     (resolved_value_blocks (block_map empty_first_blocks) (hd empty_first_blocks))
     = [[], ''second'']
   \<and> kv_step (block_map empty_first_blocks) [] (hd empty_first_blocks) = [(''Name'', ''second'')]
   \<and> extract_key_value_pairs empty_first_blocks (key_value_blocks_of empty_first_blocks)
     = [(''Name'', ''second'')]"
  by code_simp

section \<open>Properties of the free-text reconstructor\<close>

lemma text_lines_loop_filter:
  "text_lines_loop text_lines bs
     = text_lines @ filter (\<lambda>t. t \<noteq> []) (map stripped_text bs)"
  by (induction bs arbitrary: text_lines) (simp_all add: stripped_text_def Let_def)

lemma join_newline_parts:
  "join NL parts
     = (case parts of [] \<Rightarrow> [] | p # ps \<Rightarrow> p @ concat (map ((#) CHR 0x0A) ps))"
proof (induction parts)
  case Nil
  show ?case by simp
next
  case (Cons p ps)
  then show ?case by (cases ps) (simp_all add: NL_def)
qed

lemma top_of_coordinate: "top_of b = box_coordinate Top b"
  by (simp add: top_of_def bbox_of_def box_coordinate_def split: option.split)

lemma left_of_coordinate: "left_of b = box_coordinate Left b"
  by (simp add: left_of_def bbox_of_def box_coordinate_def split: option.split)

lemma text_key_le: "text_key a \<le> text_key b \<longleftrightarrow> reading_order a b"
  by (auto simp: text_key_def reading_order_def less_eq_prod_def top_of_coordinate
        left_of_coordinate)

lemma text_key_eq:
  "text_key b = (t, l) \<longleftrightarrow> box_coordinate Top b = t \<and> box_coordinate Left b = l"
  by (simp add: text_key_def top_of_coordinate left_of_coordinate)

lemma sorted_reading_order: "sorted_wrt reading_order (sort_key text_key bs)"
proof -
  have "sorted (map text_key (sort_key text_key bs))" by (rule sorted_sort_key)
  then have "sorted_wrt (\<lambda>a b. text_key a \<le> text_key b) (sort_key text_key bs)"
    by (simp add: sorted_map)
  then show ?thesis by (simp add: text_key_le)
qed

lemma stripped_text_trimmed:
  "\<exists>pre suf. (case Text b of None \<Rightarrow> [] | Some t \<Rightarrow> t) = pre @ stripped_text b @ suf
      \<and> list_all isspace pre \<and> list_all isspace suf
      \<and> (stripped_text b \<noteq> []
           \<longrightarrow> \<not> isspace (hd (stripped_text b)) \<and> \<not> isspace (last (stripped_text b)))"
  using strip_spec [of "case Text b of None \<Rightarrow> [] | Some t \<Rightarrow> t"]
    strip_ends [of "case Text b of None \<Rightarrow> [] | Some t \<Rightarrow> t"]
  unfolding stripped_text_def by blast

text \<open>
  Claim C6. The free text is the stripped texts of the LINE blocks in sorted order,
  those that are empty after stripping left out, the first written as it is and every
  later one after one newline. The sorted list is a rearrangement of the input in
  reading order: ascending top of the bounding box, and ascending left among equal
  tops (a missing coordinate counts as 0); blocks with the same top and left keep the
  order they have in the input. A stripped text is the text of the block without a
  prefix and a suffix of whitespace, and neither starts nor ends with whitespace.
\<close>

theorem extract_text_content_sorted_stripped_lines:
  "extract_text_content blocks text_blocks
     = (case filter (\<lambda>t. t \<noteq> []) (map stripped_text (sort_key text_key text_blocks)) of
          [] \<Rightarrow> []
        | p # ps \<Rightarrow> p @ concat (map ((#) CHR 0x0A) ps))
   \<and> sorted_wrt reading_order (sort_key text_key text_blocks)
   \<and> mset (sort_key text_key text_blocks) = mset text_blocks
   \<and> (\<forall>t l. filter (\<lambda>b. box_coordinate Top b = t \<and> box_coordinate Left b = l)
                 (sort_key text_key text_blocks)
               = filter (\<lambda>b. box_coordinate Top b = t \<and> box_coordinate Left b = l) text_blocks)
   \<and> (\<forall>b. \<exists>pre suf. (case Text b of None \<Rightarrow> [] | Some t \<Rightarrow> t) = pre @ stripped_text b @ suf
          \<and> list_all isspace pre \<and> list_all isspace suf
          \<and> (stripped_text b \<noteq> []
               \<longrightarrow> \<not> isspace (hd (stripped_text b)) \<and> \<not> isspace (last (stripped_text b))))"
proof (intro conjI allI)
  show "extract_text_content blocks text_blocks
     = (case filter (\<lambda>t. t \<noteq> []) (map stripped_text (sort_key text_key text_blocks)) of
          [] \<Rightarrow> []
        | p # ps \<Rightarrow> p @ concat (map ((#) CHR 0x0A) ps))"
    by (simp only: extract_text_content_def text_lines_loop_filter append_Nil join_newline_parts)
  show "sorted_wrt reading_order (sort_key text_key text_blocks)"
    by (rule sorted_reading_order)
  show "mset (sort_key text_key text_blocks) = mset text_blocks"
    by (rule mset_sort)
  show "filter (\<lambda>b. box_coordinate Top b = t \<and> box_coordinate Left b = l)
                 (sort_key text_key text_blocks)
               = filter (\<lambda>b. box_coordinate Top b = t \<and> box_coordinate Left b = l) text_blocks"
    for t l
    using sort_key_stable [of text_key "(t, l)" text_blocks]
    by (simp only: text_key_eq)
  show "\<exists>pre suf. (case Text b of None \<Rightarrow> [] | Some t \<Rightarrow> t) = pre @ stripped_text b @ suf
          \<and> list_all isspace pre \<and> list_all isspace suf
          \<and> (stripped_text b \<noteq> []
               \<longrightarrow> \<not> isspace (hd (stripped_text b)) \<and> \<not> isspace (last (stripped_text b)))"
    for b
    by (rule stripped_text_trimmed)
qed

lemma tie_lines_sorted:
  "map Id' (sort_key text_key tie_lines) = [''l6'', ''l3'', ''l2'', ''l4'', ''l1'', ''l5'']"
  by code_simp

lemma tie_lines_text:
  "(case filter (\<lambda>t. t \<noteq> []) (map stripped_text (sort_key text_key tie_lines)) of
          [] \<Rightarrow> []
        | p # ps \<Rightarrow> p @ concat (map ((#) CHR 0x0A) ps))
     = ''no box\<newline>left\<newline>right\<newline>lower\<newline>again''"
  by code_simp

theorem extract_text_content_sorted_stripped_lines_witness:
  "map Id' (sort_key text_key tie_lines) = [''l6'', ''l3'', ''l2'', ''l4'', ''l1'', ''l5'']
   \<and> extract_text_content tie_lines tie_lines
       = ''no box\<newline>left\<newline>right\<newline>lower\<newline>again''"
  using extract_text_content_sorted_stripped_lines [of tie_lines tie_lines] tie_lines_sorted
    tie_lines_text
  by simp

section \<open>Properties of the report of one document\<close>

lemma header_hd: "h \<in> headers \<Longrightarrow> h \<noteq> [] \<and> hd h = CHR ''#''"
  by (auto simp: headers_def kv_header_def tables_header_def text_header_def)

lemma kv_line_not_header: "kv_line p \<notin> headers"
  by (simp add: kv_line_def headers_def kv_header_def tables_header_def text_header_def)

lemma empty_not_header: "[] \<notin> headers"
  by (simp add: headers_def kv_header_def tables_header_def text_header_def)

lemma headers_distinct:
  "kv_header \<noteq> tables_header" "kv_header \<noteq> text_header" "tables_header \<noteq> text_header"
  by (simp_all add: kv_header_def tables_header_def text_header_def)

text \<open>The lines of a joined list, and the headers among them.\<close>

lemma split_lines_nonempty: "split_lines s \<noteq> []"
  by (induction s) (auto split: list.splits)

lemma split_lines_append:
  "split_lines (a @ CHR 0x0A # b) = split_lines a @ split_lines b"
proof (induction a)
  case Nil
  show ?case by simp
next
  case (Cons c a)
  show ?case
  proof (cases "split_lines a")
    case Nil
    then show ?thesis using split_lines_nonempty [of a] by simp
  next
    case (Cons l ls)
    then show ?thesis using Cons.IH by simp
  qed
qed

lemma split_lines_plain: "plain s \<Longrightarrow> split_lines s = [s]"
  by (induction s) (auto simp: plain_def)

lemma split_lines_join:
  "xs \<noteq> [] \<Longrightarrow> split_lines (join NL xs) = concat (map split_lines xs)"
proof (induction xs)
  case Nil
  then show ?case by simp
next
  case (Cons x xs)
  note IH = Cons.IH
  show ?case
  proof (cases xs)
    case Nil
    then show ?thesis by simp
  next
    case (Cons y ys)
    then have j: "join NL (x # xs) = x @ CHR 0x0A # join NL xs"
      by (simp add: NL_def)
    have "split_lines (join NL (x # xs)) = split_lines x @ split_lines (join NL xs)"
      by (simp only: j split_lines_append)
    also have "split_lines (join NL xs) = concat (map split_lines xs)"
      using IH Cons by simp
    finally show ?thesis by simp
  qed
qed

lemma header_lines_join:
  "xs \<noteq> [] \<Longrightarrow> set (split_lines (join NL xs)) \<inter> headers = (\<Union>e\<in>set xs. header_lines e)"
  by (auto simp: split_lines_join header_lines_def)

lemma header_lines_plain: "plain e \<Longrightarrow> header_lines e = (if e \<in> headers then {e} else {})"
  by (simp add: header_lines_def split_lines_plain)

lemma headers_plain: "h \<in> headers \<Longrightarrow> plain h"
  by (auto simp: headers_def plain_def kv_header_def tables_header_def text_header_def)

lemma header_lines_header: "h \<in> headers \<Longrightarrow> header_lines h = {h}"
  by (simp add: header_lines_plain headers_plain)

lemma header_lines_empty: "header_lines [] = {}"
  using empty_not_header by (simp add: header_lines_def)

lemma header_lines_doc:
  assumes "plain doc_type"
  shows "header_lines (''## '' @ doc_type @ '' Document Analysis'' @ NL) = {}"
proof -
  let ?l = "''## '' @ doc_type @ '' Document Analysis''"
  have p: "plain ?l" using assms by (simp add: plain_def)
  have "''## '' @ doc_type @ '' Document Analysis'' @ NL = ?l @ CHR 0x0A # []"
    by (simp add: NL_def)
  then have "split_lines (''## '' @ doc_type @ '' Document Analysis'' @ NL) = [?l, []]"
    using split_lines_append [of ?l "[]"] split_lines_plain [OF p] by simp
  moreover have "?l \<notin> headers"
    by (simp add: headers_def kv_header_def tables_header_def text_header_def)
  ultimately show ?thesis
    using empty_not_header by (simp add: header_lines_def)
qed

lemma set_strip: "set (strip s) \<subseteq> set s"
proof -
  have "set (strip s) = set (dropWhile isspace (rev (dropWhile isspace s)))"
    by (simp add: strip_def)
  also have "\<dots> \<subseteq> set (rev (dropWhile isspace s))"
    by (auto dest: set_dropWhileD)
  also have "\<dots> \<subseteq> set s"
    by (auto dest: set_dropWhileD)
  finally show ?thesis .
qed

lemma plain_strip: "plain s \<Longrightarrow> plain (strip s)"
  using set_strip [of s] by (auto simp: plain_def)

lemma plain_join: "plain sep \<Longrightarrow> \<forall>x\<in>set xs. plain x \<Longrightarrow> plain (join sep xs)"
proof (induction xs)
  case Nil
  show ?case by (simp add: plain_def)
next
  case (Cons x xs)
  then show ?case by (cases xs) (auto simp: plain_def)
qed

lemma block_map_mem_gen:
  "foldl (\<lambda>m b. m(Id' b \<mapsto> b)) m0 blocks k = Some b \<Longrightarrow> b \<in> set blocks \<or> m0 k = Some b"
proof (induction blocks arbitrary: m0)
  case Nil
  then show ?case by simp
next
  case (Cons a blocks)
  from Cons.prems have "foldl (\<lambda>m b. m(Id' b \<mapsto> b)) (m0(Id' a \<mapsto> a)) blocks k = Some b"
    by (simp only: foldl_Cons)
  from Cons.IH [OF this] show ?case
    by (auto split: if_splits)
qed

lemma block_map_mem: "block_map blocks k = Some b \<Longrightarrow> b \<in> set blocks"
  using block_map_mem_gen [of Map.empty blocks k b] by (simp add: block_map_def)

lemma plain_map_block_map: "\<forall>b\<in>set blocks. plain_block b \<Longrightarrow> plain_map (block_map blocks)"
  using block_map_mem by (auto simp: plain_map_def)

lemma word_texts_plain:
  assumes "plain_map bm"
  shows "\<forall>t\<in>set (word_texts_of_ids bm ids). plain t"
  using assms
  by (auto simp: word_texts_of_ids_def List.map_filter_def plain_map_def plain_block_def plain_def
      split: option.splits)

lemma child_word_texts_plain:
  assumes "plain_map bm"
  shows "\<forall>t\<in>set (child_word_texts bm b). plain t"
  using word_texts_plain [OF assms]
  by (auto simp: child_word_texts_def split: option.splits)

lemma get_text_plain:
  assumes "plain_map bm" "plain_block b"
  shows "plain (get_text_from_block b bm)"
proof -
  have "\<forall>t\<in>set ((case Text b of None \<Rightarrow> [] | Some t \<Rightarrow> [t]) @ child_word_texts bm b). plain t"
    using assms(2) child_word_texts_plain [OF assms(1), of b]
    by (auto simp: plain_block_def split: option.splits)
  then show ?thesis
    unfolding get_text_from_block_parts
    by (intro plain_strip plain_join) (simp_all add: plain_def)
qed

lemma get_text_plain_map:
  assumes "plain_map bm" "bm k = Some b"
  shows "plain (get_text_from_block b bm)"
  using assms get_text_plain by (auto simp: plain_map_def)

text \<open>No extraction pass brings a newline into a report whose block texts have none.\<close>

lemma value_ids_loop_plain:
  "plain_map bm \<Longrightarrow> plain value_text \<Longrightarrow> plain (value_ids_loop bm value_text ids)"
  by (induction ids) (auto simp: get_text_plain_map split: option.splits)

lemma value_rels_loop_plain:
  "plain_map bm \<Longrightarrow> plain value_text \<Longrightarrow> plain (value_rels_loop bm value_text rels)"
  by (induction rels arbitrary: value_text) (simp_all add: value_ids_loop_plain)

lemma plain_Nil: "plain []"
  by (simp add: plain_def)

lemma find_value_text_plain: "plain_map bm \<Longrightarrow> plain (find_value_text bm kv_block)"
  by (cases "Relationships kv_block")
     (simp_all add: find_value_text_def value_rels_loop_plain plain_Nil)

lemma kv_pairs_plain:
  assumes "plain_map (block_map blocks)" "\<forall>b\<in>set kvb. plain_block b"
    and "p \<in> set (extract_key_value_pairs blocks kvb)"
  shows "plain (fst p) \<and> plain (snd p)"
proof -
  have "p \<in> set (kv_candidates (block_map blocks) kvb)"
    using assms(3) dict_of_entries [of "kv_candidates (block_map blocks) kvb"]
    by (auto simp: extract_key_value_pairs_dict_of)
  then obtain kv where "kv \<in> set kvb"
    and "p = (get_text_from_block kv (block_map blocks), find_value_text (block_map blocks) kv)"
    by (auto simp: kv_candidates_def List.map_filter_def kv_candidate_def split: if_splits)
  then show ?thesis
    using assms(1,2) by (simp add: get_text_plain find_value_text_plain)
qed

lemma kv_line_header_lines:
  assumes "plain (fst p)" "plain (snd p)"
  shows "header_lines (kv_line p) = {}"
proof -
  have "plain (kv_line p)" using assms by (simp add: kv_line_def plain_def)
  then show ?thesis using kv_line_not_header by (simp add: header_lines_plain)
qed

lemma plain_grid_update:
  assumes "plain_grid g" "plain t" "i < length g"
  shows "plain_grid (g[i := (g ! i)[j := Some t]])"
proof -
  have gi: "g ! i \<in> set g" using assms(3) by simp
  have row: "\<forall>c\<in>set ((g ! i)[j := Some t]). plain (cell_or_empty c)"
  proof
    fix c assume "c \<in> set ((g ! i)[j := Some t])"
    then have "c = Some t \<or> c \<in> set (g ! i)"
      using set_update_subset_insert [of "g ! i" j "Some t"] by auto
    then show "plain (cell_or_empty c)"
      using assms(1,2) gi by (auto simp: plain_grid_def cell_or_empty_def)
  qed
  show ?thesis
    unfolding plain_grid_def
  proof
    fix r assume "r \<in> set (g[i := (g ! i)[j := Some t]])"
    then have "r = (g ! i)[j := Some t] \<or> r \<in> set g"
      using set_update_subset_insert [of g i "(g ! i)[j := Some t]"] by auto
    then show "\<forall>c\<in>set r. plain (cell_or_empty c)"
      using row assms(1) by (auto simp: plain_grid_def)
  qed
qed

lemma py_index_less: "py_index n i = Some k \<Longrightarrow> k < n"
  by (auto simp: py_index_def split: if_splits)

lemma grid_set_plain:
  assumes "plain_grid g" "plain t" "grid_set g r c t = Inr g'"
  shows "plain_grid g'"
proof -
  from assms(3) obtain i j where i: "py_index (length g) r = Some i"
    and g': "g' = g[i := (g ! i)[j := Some t]]"
    by (auto simp: grid_set_def split: option.splits)
  show ?thesis
    unfolding g' using assms(1,2) py_index_less [OF i] by (rule plain_grid_update)
qed

lemma fill_grid_plain:
  assumes "plain_grid g" "\<forall>x\<in>set cs. plain (get_text_from_block x bm)"
    and "fill_grid bm g cs = Inr g'"
  shows "plain_grid g'"
  using assms
proof (induction cs arbitrary: g)
  case Nil
  then show ?case by simp
next
  case (Cons x xs)
  from Cons.prems(3) obtain g1 where
    s: "grid_set g (row_index x - 1) (column_index x - 1) (get_text_from_block x bm) = Inr g1"
    and r: "fill_grid bm g1 xs = Inr g'"
    by (auto split: sum.splits)
  have "plain_grid g1"
    using grid_set_plain [OF Cons.prems(1) _ s] Cons.prems(2) by simp
  then show ?case using Cons.IH [OF _ _ r] Cons.prems(2) by simp
qed

lemma get_table_cells_mem:
  assumes "x \<in> set (get_table_cells bm table_block)"
  shows "\<exists>k. bm k = Some x"
  using assms
  by (auto simp: get_table_cells_resolved List.map_filter_def split: option.splits)

lemma build_grid_plain:
  assumes "plain_map bm" "build_grid bm (get_table_cells bm table_block) = Inr g"
  shows "plain_grid g"
proof -
  let ?cs = "sort_key cell_key (get_table_cells bm table_block)"
  have cells: "\<forall>x\<in>set ?cs. plain (get_text_from_block x bm)"
    using get_table_cells_mem [of _ bm table_block] get_text_plain_map [OF assms(1)]
    by auto
  from assms(2) obtain max_row max_col where
    "fill_grid bm (replicate (nat (max_row + 1)) (replicate (nat (max_col + 1)) None)) ?cs = Inr g"
    by (auto simp: build_grid_def Let_def split: sum.splits)
  moreover have "plain_grid (replicate (nat (max_row + 1)) (replicate (nat (max_col + 1)) None))"
    by (auto simp: plain_grid_def cell_or_empty_def plain_def)
  ultimately show ?thesis using fill_grid_plain cells by blast
qed

lemma row_line_table_line: "\<forall>c\<in>set r. plain c \<Longrightarrow> table_line (row_line r)"
proof -
  assume "\<forall>c\<in>set r. plain c"
  then have "plain (join '' | '' r)"
    by (intro plain_join) (simp_all add: plain_def)
  then show ?thesis by (simp add: table_line_def row_line_def plain_def)
qed

lemma render_rows_table_lines:
  assumes "plain_grid g" "\<forall>l\<in>set markdown_table. table_line l"
  shows "\<forall>l\<in>set (render_rows i markdown_table g). table_line l"
  using assms
proof (induction g arbitrary: i markdown_table)
  case Nil
  then show ?case by simp
next
  case (Cons row rows)
  have pr: "plain_grid rows" using Cons.prems(1) by (simp add: plain_grid_def)
  have l1: "table_line (row_line (map cell_or_empty row))"
    using Cons.prems(1) by (intro row_line_table_line) (simp add: plain_grid_def)
  have l2: "table_line (row_line (replicate n ''---''))" for n
    by (intro row_line_table_line) (simp add: plain_def)
  show ?case
  proof (cases "i = 0")
    case True
    have "\<forall>l\<in>set (markdown_table @ [row_line (map cell_or_empty row),
                 row_line (replicate (length (map cell_or_empty row)) ''---'')]). table_line l"
      using Cons.prems(2) l1 l2 by simp
    from Cons.IH [OF pr this] show ?thesis using True by (simp add: Let_def)
  next
    case False
    have "\<forall>l\<in>set (markdown_table @ [row_line (map cell_or_empty row)]). table_line l"
      using Cons.prems(2) l1 by simp
    from Cons.IH [OF pr this] show ?thesis using False by (simp add: Let_def)
  qed
qed

lemma table_line_header_lines: "table_line l \<Longrightarrow> header_lines l = {}"
proof -
  assume t: "table_line l"
  then have "l \<notin> headers" using header_hd [of l] by (auto simp: table_line_def)
  then show ?thesis using t by (simp add: header_lines_plain table_line_def)
qed

lemma render_grid_header_lines:
  assumes "plain_grid g"
  shows "header_lines (render_grid g) = {}"
proof (cases "g = [] \<or> hd g = []")
  case True
  then show ?thesis by (simp add: render_grid_def header_lines_empty)
next
  case False
  have ne: "render_rows 0 [] g \<noteq> []"
    using False render_rows_length [of 0 "[]" g] by (metis length_0_conv add_is_0 list.size(3))
  have "\<forall>l\<in>set (render_rows 0 [] g). table_line l"
    using render_rows_table_lines [OF assms, of "[]" 0] by simp
  then have "(\<Union>e\<in>set (render_rows 0 [] g). header_lines e) = {}"
    by (simp add: table_line_header_lines)
  then have "set (split_lines (join NL (render_rows 0 [] g))) \<inter> headers = {}"
    using header_lines_join [OF ne] by simp
  then show ?thesis using False by (simp add: render_grid_def header_lines_def)
qed

lemma table_content_header_lines:
  assumes "plain_map (block_map blocks)"
    and "extract_table_content blocks table_block cell_blocks = Inr table_content"
  shows "header_lines table_content = {}"
proof (cases "get_table_cells (block_map blocks) table_block = []")
  case True
  then show ?thesis using assms(2) by (auto simp: extract_table_content_def header_lines_empty)
next
  case False
  then obtain g where g: "build_grid (block_map blocks) (get_table_cells (block_map blocks) table_block) = Inr g"
    and tc: "table_content = render_grid g"
    using assms(2) by (auto simp: extract_table_content_def Let_def split: sum.splits)
  show ?thesis
    unfolding tc using build_grid_plain [OF assms(1) g] by (rule render_grid_header_lines)
qed

lemma tables_loop_header_lines:
  assumes "plain_map (block_map blocks)"
    and "tables_loop blocks cell_blocks result tbs = Inr result'"
  shows "(\<Union>e\<in>set result'. header_lines e) = (\<Union>e\<in>set result. header_lines e)"
  using assms(2)
proof (induction tbs arbitrary: result)
  case Nil
  then show ?case by simp
next
  case (Cons table_block tbs)
  from Cons.prems obtain table_content where
    tc: "extract_table_content blocks table_block cell_blocks = Inr table_content"
    by (auto split: sum.splits)
  have nh: "header_lines table_content = {}"
    using table_content_header_lines [OF assms(1) tc] .
  show ?case
  proof (cases "table_content = []")
    case True
    then show ?thesis using Cons.prems Cons.IH [of result] tc by simp
  next
    case False
    then have "tables_loop blocks cell_blocks (result @ [table_content, []]) tbs = Inr result'"
      using Cons.prems tc by simp
    from Cons.IH [OF this] show ?thesis
      using nh header_lines_empty by simp
  qed
qed

lemma text_content_header_lines:
  assumes "\<forall>b\<in>set text_blocks. plain_block b \<and> stripped_text b \<notin> headers"
  shows "header_lines (extract_text_content blocks text_blocks) = {}"
proof -
  let ?ls = "filter (\<lambda>t. t \<noteq> []) (map stripped_text (sort_key text_key text_blocks))"
  have e: "extract_text_content blocks text_blocks = join NL ?ls"
    by (simp only: extract_text_content_def text_lines_loop_filter append_Nil)
  have each: "\<forall>l\<in>set ?ls. header_lines l = {}"
  proof
    fix l assume "l \<in> set ?ls"
    then obtain b where b: "b \<in> set text_blocks" "l = stripped_text b" by auto
    then have "plain l"
      using assms by (auto simp: stripped_text_def plain_block_def plain_def
          intro!: plain_strip [unfolded plain_def] split: option.splits)
    moreover have "l \<notin> headers" using assms b by simp
    ultimately show "header_lines l = {}" by (simp add: header_lines_plain)
  qed
  show ?thesis
  proof (cases "?ls = []")
    case True
    then show ?thesis by (simp add: e header_lines_empty)
  next
    case False
    have "(\<Union>l\<in>set ?ls. header_lines l) = {}"
      using each by blast
    then have "set (split_lines (join NL ?ls)) \<inter> headers = {}"
      by (simp only: header_lines_join [OF False])
    then show ?thesis
      by (simp only: e header_lines_def)
  qed
qed

text \<open>
  Claim C3, amended. Take a response whose report is produced, a document type without
  a newline, block texts without a newline, and no LINE block whose stripped text is a
  subsection header. Then the returned report has the Key-Value Pairs header as one of
  its lines exactly when the collection has a KEY_VALUE_SET block, the Tables header
  exactly when it has a TABLE block, and the Text Content header exactly when it has a
  LINE block. The guards of the code test the lists of blocks, not what the extraction
  passes return.
\<close>

theorem report_header_lines_follow_block_types:
  assumes rep: "process_textract_response resp doc_type = Inr report"
    and bl: "blocks = (case Blocks resp of None \<Rightarrow> [] | Some bs \<Rightarrow> bs)"
    and dt: "plain doc_type"
    and pb: "\<forall>b\<in>set blocks. plain_block b"
    and nl: "\<forall>b\<in>set blocks. BlockType b = ''LINE'' \<longrightarrow> stripped_text b \<notin> headers"
  shows "(kv_header \<in> set (split_lines report)
            \<longleftrightarrow> filter (\<lambda>b. BlockType b = ''KEY_VALUE_SET'') blocks \<noteq> [])
       \<and> (tables_header \<in> set (split_lines report)
            \<longleftrightarrow> filter (\<lambda>b. BlockType b = ''TABLE'') blocks \<noteq> [])
       \<and> (text_header \<in> set (split_lines report)
            \<longleftrightarrow> filter (\<lambda>b. BlockType b = ''LINE'') blocks \<noteq> [])"
proof -
  define lb where "lb = filter (\<lambda>b. BlockType b = ''LINE'') blocks"
  define tb where "tb = filter (\<lambda>b. BlockType b = ''TABLE'') blocks"
  define cb where "cb = filter (\<lambda>b. BlockType b = ''CELL'') blocks"
  define kvb where "kvb = filter (\<lambda>b. BlockType b = ''KEY_VALUE_SET'') blocks"
  define dh where "dh = ''## '' @ doc_type @ '' Document Analysis'' @ NL"
  define kls where "kls = map kv_line (extract_key_value_pairs blocks kvb)"
  define r1 where "r1 = (if kvb \<noteq> [] then [dh] @ [kv_header, []] @ kls @ [[]] else [dh])"
  define tc where "tc = extract_text_content blocks lb"
  from rep obtain result where rl: "report_lines blocks doc_type = Inr result"
    and report: "report = join NL result"
    by (auto simp: process_textract_response_def bl split: sum.splits)
  have pm: "plain_map (block_map blocks)"
    using pb by (rule plain_map_block_map)
  have mem: "kv_header \<in> headers" "tables_header \<in> headers" "text_header \<in> headers"
    by (simp_all add: headers_def)
  have dhh: "header_lines dh = {}" unfolding dh_def using dt by (rule header_lines_doc)
  have klsh: "header_lines l = {}" if "l \<in> set kls" for l
  proof -
    from that obtain p where p: "p \<in> set (extract_key_value_pairs blocks kvb)" "l = kv_line p"
      by (auto simp: kls_def)
    have "\<forall>b\<in>set kvb. plain_block b" using pb by (simp add: kvb_def)
    from kv_pairs_plain [OF pm this p(1)] show ?thesis
      unfolding p(2) by (intro kv_line_header_lines) simp_all
  qed
  have r1h: "(\<Union>e\<in>set r1. header_lines e) = (if kvb \<noteq> [] then {kv_header} else {})"
    using dhh klsh header_lines_empty header_lines_header [OF mem(1)]
    by (auto simp: r1_def)
  from rl obtain r2 where
    r2: "(if tb \<noteq> [] then tables_loop blocks cb (r1 @ [tables_header, []]) tb else Inr r1) = Inr r2"
    and res: "result = (if lb \<noteq> [] then r2 @ [text_header, [], tc] else r2)"
    unfolding report_lines_def Let_def lb_def [symmetric] tb_def [symmetric] cb_def [symmetric]
      kvb_def [symmetric] tc_def r1_def dh_def kls_def
    by (auto split: sum.splits)
  have r2h: "(\<Union>e\<in>set r2. header_lines e)
               = (\<Union>e\<in>set r1. header_lines e) \<union> (if tb \<noteq> [] then {tables_header} else {})"
  proof (cases "tb = []")
    case True
    then show ?thesis using r2 by simp
  next
    case False
    then have "tables_loop blocks cb (r1 @ [tables_header, []]) tb = Inr r2"
      using r2 by simp
    from tables_loop_header_lines [OF pm this] show ?thesis
      using False header_lines_empty header_lines_header [OF mem(2)] by simp
  qed
  have tch: "header_lines tc = {}"
    unfolding tc_def using pb nl
    by (intro text_content_header_lines) (simp add: lb_def)
  have resh: "(\<Union>e\<in>set result. header_lines e)
               = (\<Union>e\<in>set r2. header_lines e) \<union> (if lb \<noteq> [] then {text_header} else {})"
    using tch header_lines_empty header_lines_header [OF mem(3)] by (simp add: res)
  have r1ne: "r1 \<noteq> []" by (simp add: r1_def)
  have r2ne: "r2 \<noteq> []"
  proof (cases "tb = []")
    case True
    then show ?thesis using r2 r1ne by simp
  next
    case False
    then have "tables_loop blocks cb (r1 @ [tables_header, []]) tb = Inr r2"
      using r2 by simp
    from tables_loop_header_lines [OF pm this] show ?thesis
      using header_lines_header [OF mem(2)] by auto
  qed
  have "result \<noteq> []" using r2ne by (simp add: res)
  then have lines: "set (split_lines report) \<inter> headers = (\<Union>e\<in>set result. header_lines e)"
    unfolding report by (rule header_lines_join)
  have all: "set (split_lines report) \<inter> headers
               = (if kvb \<noteq> [] then {kv_header} else {})
                 \<union> (if tb \<noteq> [] then {tables_header} else {})
                 \<union> (if lb \<noteq> [] then {text_header} else {})"
    by (simp only: lines resh r2h r1h)
  have "kv_header \<in> set (split_lines report) \<longleftrightarrow> kv_header \<in> set (split_lines report) \<inter> headers"
    using mem(1) by simp
  also have "\<dots> \<longleftrightarrow> kvb \<noteq> []"
    using headers_distinct by (auto simp: all split: if_splits)
  finally have a: "kv_header \<in> set (split_lines report) \<longleftrightarrow> kvb \<noteq> []" .
  have "tables_header \<in> set (split_lines report)
          \<longleftrightarrow> tables_header \<in> set (split_lines report) \<inter> headers"
    using mem(2) by simp
  also have "\<dots> \<longleftrightarrow> tb \<noteq> []"
    using headers_distinct by (auto simp: all split: if_splits)
  finally have b: "tables_header \<in> set (split_lines report) \<longleftrightarrow> tb \<noteq> []" .
  have "text_header \<in> set (split_lines report)
          \<longleftrightarrow> text_header \<in> set (split_lines report) \<inter> headers"
    using mem(3) by simp
  also have "\<dots> \<longleftrightarrow> lb \<noteq> []"
    using headers_distinct by (auto simp: all split: if_splits)
  finally have c: "text_header \<in> set (split_lines report) \<longleftrightarrow> lb \<noteq> []" .
  show ?thesis
    using a b c by (simp add: kvb_def tb_def lb_def)
qed

text \<open>
  Claim C3, as stated, fails: for a KEY block that yields no pair, a TABLE block that
  renders nothing and a LINE block whose text is blank, no pair is extracted, no table
  is rendered and the free text is empty, yet the report has all three headers, each
  followed by empty lines only.
\<close>

theorem bare_headers_are_emitted:
  "extract_key_value_pairs bare_blocks (filter (\<lambda>b. BlockType b = ''KEY_VALUE_SET'') bare_blocks) = []
   \<and> extract_table_content bare_blocks (mk_table ''t1'' []) [] = Inr []
   \<and> extract_text_content bare_blocks (filter (\<lambda>b. BlockType b = ''LINE'') bare_blocks) = []
   \<and> report_lines bare_blocks ''INVOICE''
       = Inr [''## INVOICE Document Analysis\<newline>'',
              ''### Key-Value Pairs (Forms)'', [], [],
              ''### Tables'', [],
              ''### Text Content'', [], []]
   \<and> process_textract_response \<lparr>Blocks = Some bare_blocks\<rparr> ''INVOICE''
       = Inr ''## INVOICE Document Analysis\<newline>\<newline>### Key-Value Pairs (Forms)\<newline>\<newline>\<newline>### Tables\<newline>\<newline>### Text Content\<newline>\<newline>''"
  by code_simp

text \<open>A LINE block whose text is a header puts that header into the report as a line of
  the free text; the theorem above leaves such collections out.\<close>

lemma header_text_in_free_text:
  "filter (\<lambda>b. BlockType b = ''TABLE'') header_text_blocks = []
   \<and> process_textract_response \<lparr>Blocks = Some header_text_blocks\<rparr> ''INVOICE''
       = Inr ''## INVOICE Document Analysis\<newline>\<newline>### Text Content\<newline>\<newline>### Tables\<newline>x''"
  by code_simp

theorem report_header_lines_follow_block_types_witness:
  "process_textract_response \<lparr>Blocks = Some end_to_end_blocks\<rparr> ''INVOICE''
     = Inr ''## INVOICE Document Analysis\<newline>\<newline>### Key-Value Pairs (Forms)\<newline>\<newline>**Total:** $500.00\<newline>\<newline>### Text Content\<newline>\<newline>Thank you''
   \<and> kv_header \<in> set (split_lines ''## INVOICE Document Analysis\<newline>\<newline>### Key-Value Pairs (Forms)\<newline>\<newline>**Total:** $500.00\<newline>\<newline>### Text Content\<newline>\<newline>Thank you'')
   \<and> filter (\<lambda>b. BlockType b = ''TABLE'') end_to_end_blocks = []
   \<and> tables_header \<notin> set (split_lines ''## INVOICE Document Analysis\<newline>\<newline>### Key-Value Pairs (Forms)\<newline>\<newline>**Total:** $500.00\<newline>\<newline>### Text Content\<newline>\<newline>Thank you'')
   \<and> text_header \<in> set (split_lines ''## INVOICE Document Analysis\<newline>\<newline>### Key-Value Pairs (Forms)\<newline>\<newline>**Total:** $500.00\<newline>\<newline>### Text Content\<newline>\<newline>Thank you'')"
proof -
  have h1: "process_textract_response \<lparr>Blocks = Some end_to_end_blocks\<rparr> ''INVOICE''
     = Inr ''## INVOICE Document Analysis\<newline>\<newline>### Key-Value Pairs (Forms)\<newline>\<newline>**Total:** $500.00\<newline>\<newline>### Text Content\<newline>\<newline>Thank you''"
    by code_simp
  have h2: "end_to_end_blocks
              = (case Blocks \<lparr>Blocks = Some end_to_end_blocks\<rparr> of None \<Rightarrow> [] | Some bs \<Rightarrow> bs)"
    by simp
  have h3: "plain ''INVOICE''"
    by code_simp
  have h4: "\<forall>b\<in>set end_to_end_blocks. plain_block b"
    by code_simp
  have h5: "\<forall>b\<in>set end_to_end_blocks. BlockType b = ''LINE'' \<longrightarrow> stripped_text b \<notin> headers"
    by code_simp
  have kvs: "filter (\<lambda>b. BlockType b = ''KEY_VALUE_SET'') end_to_end_blocks \<noteq> []"
    by code_simp
  have tbs: "filter (\<lambda>b. BlockType b = ''TABLE'') end_to_end_blocks = []"
    by code_simp
  have lns: "filter (\<lambda>b. BlockType b = ''LINE'') end_to_end_blocks \<noteq> []"
    by code_simp
  show ?thesis
    using report_header_lines_follow_block_types [OF h1 h2 h3 h4 h5] h1 kvs tbs lns by blast
qed

section \<open>Properties of the entry point\<close>









lemma run_end_to_end:
  "run (quiet_env \<lparr>Blocks = Some end_to_end_blocks\<rparr> \<lparr>Blocks = Some []\<rparr>)
       ''invoice.pdf'' ''po.pdf'' ''us-east-1'' []
     = ''# INVOICE DOCUMENT ANALYSIS\<newline>## INVOICE Document Analysis\<newline>\<newline>### Key-Value Pairs (Forms)\<newline>\<newline>**Total:** $500.00\<newline>\<newline>### Text Content\<newline>\<newline>Thank you\<newline>\<newline>---\<newline>\<newline># PURCHASE ORDER DOCUMENT ANALYSIS\<newline>## PURCHASE ORDER Document Analysis\<newline>''"
  by code_simp

end
